theory Spec2Isabelle
  imports Main "HOL-Library.Char_ord" "HOL-Library.List_Lexorder"
begin

section \<open>Mirroring a local directory tree into a file share (constructs/file-share.ts)\<close>

text \<open>
  The construct \<^verbatim>\<open>FileShareConstruct\<close> walks a local directory
  (\<^verbatim>\<open>getAllFiles\<close>), derives the remote directories that host the files
  (\<^verbatim>\<open>getDirectories\<close>), splits the files into those directly under the
  mount directory and the others (\<^verbatim>\<open>categorizeFiles\<close>) and emits one
  \<^verbatim>\<open>StorageShareDirectory\<close> per directory and one
  \<^verbatim>\<open>StorageShareFile\<close> per file (\<^verbatim>\<open>createFileShare\<close>).

  Strings are \<^typ>\<open>string\<close>; the order on them (used by \<^verbatim>\<open>Array.prototype.sort\<close>
  without a comparator) is the lexicographic order on code units.
\<close>

subsection \<open>The POSIX flavour of Node's \<^verbatim>\<open>path\<close> module\<close>

text \<open>
  The source calls \<^verbatim>\<open>path.join\<close>, \<^verbatim>\<open>path.dirname\<close>,
  \<^verbatim>\<open>path.basename\<close> and \<^verbatim>\<open>path.relative\<close>. They are
  library functions; the definitions below follow Node's \<^verbatim>\<open>path.posix\<close>
  implementation, function by function (the separator is \<^verbatim>\<open>/\<close>; the Windows
  flavour is not modelled).
\<close>

text \<open>\<^verbatim>\<open>s.split('/')\<close>: the segments between the separators (never an empty list).\<close>

fun split_path :: "string \<Rightarrow> string list" where
  "split_path [] = [[]]"
| "split_path (c # cs) =
     (if c = CHR ''/'' then [] # split_path cs
      else (case split_path cs of [] \<Rightarrow> [[c]] | s # ss \<Rightarrow> (c # s) # ss))"

text \<open>\<^verbatim>\<open>segs.join('/')\<close>.\<close>

fun join_slash :: "string list \<Rightarrow> string" where
  "join_slash [] = []"
| "join_slash [s] = s"
| "join_slash (s # t # ss) = s @ CHR ''/'' # join_slash (t # ss)"

text \<open>
  \<^verbatim>\<open>normalizeString(path, allowAboveRoot, '/', isPosixPathSeparator)\<close> reads the
  path segment by segment and keeps the result \<^verbatim>\<open>res\<close> as a string of
  segments joined by single separators. One segment does this to \<^verbatim>\<open>res\<close>:
  an empty segment or \<^verbatim>\<open>.\<close> changes nothing; \<^verbatim>\<open>..\<close> removes the last
  segment of \<^verbatim>\<open>res\<close> when there is one and it is not \<^verbatim>\<open>..\<close>, and is
  otherwise appended when \<^verbatim>\<open>allowAboveRoot\<close> holds and dropped when not; any
  other segment is appended.
\<close>

definition norm_step :: "bool \<Rightarrow> string list \<Rightarrow> string \<Rightarrow> string list" where
  "norm_step allowAboveRoot res seg =
     (if seg = [] \<or> seg = ''.'' then res
      else if seg = ''..'' then
        (if res \<noteq> [] \<and> last res \<noteq> ''..'' then butlast res
         else if allowAboveRoot then res @ [''..'']
         else res)
      else res @ [seg])"

definition norm_segs :: "bool \<Rightarrow> string \<Rightarrow> string list" where
  "norm_segs allowAboveRoot path = foldl (norm_step allowAboveRoot) [] (split_path path)"

definition normalizeString :: "string \<Rightarrow> bool \<Rightarrow> string" where
  "normalizeString path allowAboveRoot = join_slash (norm_segs allowAboveRoot path)"

definition isAbsolute :: "string \<Rightarrow> bool" where
  "isAbsolute path = (path \<noteq> [] \<and> hd path = CHR ''/'')"

text \<open>\<^verbatim>\<open>path.normalize(path)\<close>.\<close>

definition normalize :: "string \<Rightarrow> string" where
  "normalize path =
     (if path = [] then ''.''
      else
        let trailingSeparator = (last path = CHR ''/'');
            p = normalizeString path (\<not> isAbsolute path)
        in if p = [] then
             (if isAbsolute path then ''/''
              else if trailingSeparator then ''./'' else ''.'')
           else
             let p' = (if trailingSeparator then p @ ''/'' else p)
             in if isAbsolute path then CHR ''/'' # p' else p')"

text \<open>
  \<^verbatim>\<open>path.join(a, b)\<close>: the non-empty arguments joined by a separator, normalised;
  \<^verbatim>\<open>.\<close> when both are empty.
\<close>

definition path_join :: "string \<Rightarrow> string \<Rightarrow> string" where
  "path_join a b =
     (if a = [] \<and> b = [] then ''.''
      else normalize (if a = [] then b else if b = [] then a else a @ CHR ''/'' # b))"

text \<open>
  \<^verbatim>\<open>path.resolve(p)\<close> with one argument. The loop runs from the last argument to
  the working directory \<^verbatim>\<open>process.cwd()\<close> (here the parameter \<open>cwd\<close>) and stops
  once the path is absolute; empty entries are skipped.
\<close>

definition resolve :: "string \<Rightarrow> string \<Rightarrow> string" where
  "resolve cwd p =
     (let r1 = (if p = [] then [] else p @ ''/'');
          r2 = (if isAbsolute p \<or> cwd = [] then r1 else cwd @ CHR ''/'' # r1);
          resolvedAbsolute = (isAbsolute p \<or> isAbsolute cwd);
          n = normalizeString r2 (\<not> resolvedAbsolute)
      in if resolvedAbsolute then CHR ''/'' # n
         else if n \<noteq> [] then n else ''.'')"

text \<open>The length of the longest common prefix: where the comparison loop of
  \<^verbatim>\<open>path.relative\<close> stops.\<close>

fun common_prefix_len :: "string \<Rightarrow> string \<Rightarrow> nat" where
  "common_prefix_len (a # as) (b # bs) = (if a = b then Suc (common_prefix_len as bs) else 0)"
| "common_prefix_len _ _ = 0"

text \<open>The index of the last separator among the characters of a string, \<open>-1\<close> when there
  is none: \<^verbatim>\<open>lastCommonSep\<close> after the comparison loop, for the common prefix.\<close>

definition last_sep :: "string \<Rightarrow> int" where
  "last_sep s =
     (let r = dropWhile (\<lambda>c. c \<noteq> CHR ''/'') (rev s)
      in int (length r) - 1)"

text \<open>
  The last loop of \<^verbatim>\<open>path.relative\<close>: for \<^verbatim>\<open>i\<close> from \<open>start\<close> to
  \<^verbatim>\<open>fromEnd\<close> (the length of \<^verbatim>\<open>from\<close>), one \<^verbatim>\<open>..\<close> is written when
  \<^verbatim>\<open>i\<close> is \<^verbatim>\<open>fromEnd\<close> or the character at \<^verbatim>\<open>i\<close> is a separator, the
  first as \<^verbatim>\<open>..\<close> and the others as \<^verbatim>\<open>/..\<close>.
\<close>

definition up_segments :: "string \<Rightarrow> nat \<Rightarrow> string" where
  "up_segments from start =
     (let ups = (if start \<le> length from
                 then Suc (length (filter (\<lambda>c. c = CHR ''/'') (drop start from)))
                 else 0)
      in join_slash (replicate ups ''..''))"

text \<open>
  \<^verbatim>\<open>path.relative\<close> after both paths are resolved and found different. The loop
  compares the paths from index 1 (\<open>f\<close> and \<open>t\<close> are the paths without their first
  character, \<open>i\<close> is where the loop stops) and remembers the last common separator; the
  two early returns are the cases where \<^verbatim>\<open>from\<close> is a directory above
  \<^verbatim>\<open>to\<close>; otherwise the \<^verbatim>\<open>..\<close> segments are followed by the rest of
  \<^verbatim>\<open>to\<close> from the last common separator on.
\<close>

definition relative_resolved :: "string \<Rightarrow> string \<Rightarrow> string" where
  "relative_resolved from to =
     (let fromLen = length from - 1;
          toLen = length to - 1;
          f = drop 1 from;
          t = drop 1 to;
          len = min fromLen toLen;
          i = common_prefix_len f t;
          sep = last_sep (take i f)
      in if i = len \<and> toLen > len \<and> t ! i = CHR ''/'' then drop (i + 1) t
         else if i = len \<and> toLen > len \<and> i = 0 then drop i t
         else
           let lastCommonSep =
                 (if i = len \<and> \<not> toLen > len \<and> fromLen > len then
                    (if f ! i = CHR ''/'' then int i
                     else if i = 0 then 0 else sep)
                  else sep)
           in up_segments from (nat (1 + lastCommonSep + 1)) @ drop (nat (1 + lastCommonSep)) to)"

text \<open>\<^verbatim>\<open>path.relative(from, to)\<close>.\<close>

definition relative :: "string \<Rightarrow> string \<Rightarrow> string \<Rightarrow> string" where
  "relative cwd from to =
     (if from = to then []
      else
        let from' = resolve cwd from; to' = resolve cwd to
        in if from' = to' then [] else relative_resolved from' to')"

text \<open>
  \<^verbatim>\<open>path.dirname(path)\<close>. The loop runs from the end of the path down to index 1,
  skips the trailing separators and then the last segment, and stops at the separator
  before it: \<^verbatim>\<open>end\<close> is the index of that separator.
\<close>

definition dirname :: "string \<Rightarrow> string" where
  "dirname path =
     (if path = [] then ''.''
      else
        let hasRoot = (hd path = CHR ''/'');
            r = dropWhile (\<lambda>c. c \<noteq> CHR ''/'') (dropWhile (\<lambda>c. c = CHR ''/'') (rev (tl path)))
        in if r = [] then (if hasRoot then ''/'' else ''.'')
           else if hasRoot \<and> length r = 1 then ''//''
           else take (length r) path)"

text \<open>\<^verbatim>\<open>path.basename(path)\<close> without a suffix: the last segment, trailing
  separators ignored.\<close>

definition basename :: "string \<Rightarrow> string" where
  "basename path =
     rev (takeWhile (\<lambda>c. c \<noteq> CHR ''/'') (dropWhile (\<lambda>c. c = CHR ''/'') (rev path)))"

subsection \<open>The local file system\<close>

text \<open>
  What \<^verbatim>\<open>fs.readdirSync\<close> and \<^verbatim>\<open>fs.statSync\<close> see. A node is a regular
  file, a directory with named entries, an entry whose \<^verbatim>\<open>statSync\<close> fails (a link
  whose target is missing gives \<^verbatim>\<open>ENOENT\<close>, a loop of links \<^verbatim>\<open>ELOOP\<close>) or
  a directory that \<^verbatim>\<open>statSync\<close> reports and \<^verbatim>\<open>readdirSync\<close> cannot read
  (\<^verbatim>\<open>EACCES\<close>). A link that leads to a regular file or to a directory is that file or
  directory. The file system is the node of \<^verbatim>\<open>/\<close>.
\<close>

datatype fs_error = ENOENT | ENOTDIR | EACCES | ELOOP

datatype fsnode =
    File
  | Dir "(string \<times> fsnode) list"
  | StatFails fs_error
  | ReaddirFails fs_error

text \<open>
  Path resolution, segment by segment. The first argument is the node reached so far,
  followed by the directories above it up to \<^verbatim>\<open>/\<close>. An empty segment and
  \<^verbatim>\<open>.\<close> stay in a directory, \<^verbatim>\<open>..\<close> leaves it (\<^verbatim>\<open>/\<close> is its own
  parent), a name that the directory does not have gives \<^verbatim>\<open>ENOENT\<close>, and any
  segment after a regular file gives \<^verbatim>\<open>ENOTDIR\<close>. A directory that cannot be read
  is taken not to be searchable either.
\<close>

fun resolve_in :: "fsnode list \<Rightarrow> string list \<Rightarrow> fs_error + fsnode" where
  "resolve_in [] segs = Inl ENOENT"
| "resolve_in (cur # parents) [] = Inr cur"
| "resolve_in (cur # parents) (s # segs) =
     (case cur of
        Dir items \<Rightarrow>
          if s = [] \<or> s = ''.'' then resolve_in (cur # parents) segs
          else if s = ''..'' then resolve_in (if parents = [] then [cur] else parents) segs
          else (case map_of items s of
                  None \<Rightarrow> Inl ENOENT
                | Some c \<Rightarrow> resolve_in (c # cur # parents) segs)
      | File \<Rightarrow> Inl ENOTDIR
      | StatFails e \<Rightarrow> Inl e
      | ReaddirFails e \<Rightarrow> Inl e)"

text \<open>
  What the file system \<open>fs\<close> has at the path \<open>p\<close>, for a process with the working
  directory \<open>cwd\<close>: the node, or the error of the system call that is given the path.
\<close>

definition node_at :: "string \<Rightarrow> fsnode \<Rightarrow> string \<Rightarrow> fs_error + fsnode" where
  "node_at cwd fs p =
     (if p = [] then Inl ENOENT
      else resolve_in [fs] (split_path (if isAbsolute p then p else cwd @ CHR ''/'' # p)))"

text \<open>\<^verbatim>\<open>fs.statSync(fullPath)\<close> for an entry, and \<^verbatim>\<open>stat.isDirectory()\<close>.\<close>

fun statSync :: "fsnode \<Rightarrow> fs_error + fsnode" where
  "statSync (StatFails e) = Inl e"
| "statSync node = Inr node"

fun isDirectory :: "fsnode \<Rightarrow> bool" where
  "isDirectory (Dir _) = True"
| "isDirectory (ReaddirFails _) = True"
| "isDirectory _ = False"

text \<open>
  \<^verbatim>\<open>getAllFiles(dir)\<close>, lines 78-94. The second argument is what the file system has
  at \<open>dir\<close>: \<^verbatim>\<open>readdirSync\<close> throws the error of the path resolution, throws
  \<^verbatim>\<open>ENOTDIR\<close> for a regular file, and returns the names of the entries of a
  directory. \<open>getAllFiles_loop\<close> is the \<^verbatim>\<open>for\<close> loop over the entries, with
  \<^verbatim>\<open>results\<close> as accumulator; \<^verbatim>\<open>statSync(path.join(dir, item))\<close> sees the
  entry that \<^verbatim>\<open>readdirSync\<close> listed under the name \<^verbatim>\<open>item\<close>. An exception of
  \<^verbatim>\<open>statSync\<close> or of the recursive call leaves the loop.
\<close>

function getAllFiles :: "string \<Rightarrow> fs_error + fsnode \<Rightarrow> fs_error + string list"
  and getAllFiles_loop ::
    "string \<Rightarrow> (string \<times> fsnode) list \<Rightarrow> string list \<Rightarrow> fs_error + string list"
where
  "getAllFiles dir (Inl e) = Inl e"
| "getAllFiles dir (Inr File) = Inl ENOTDIR"
| "getAllFiles dir (Inr (StatFails e)) = Inl e"
| "getAllFiles dir (Inr (ReaddirFails e)) = Inl e"
| "getAllFiles dir (Inr (Dir items)) = getAllFiles_loop dir items []"
| "getAllFiles_loop dir [] results = Inr results"
| "getAllFiles_loop dir ((item, entry) # rest) results =
     (let fullPath = path_join dir item
      in case statSync entry of
           Inl e \<Rightarrow> Inl e
         | Inr stat \<Rightarrow>
             if isDirectory stat then
               (case getAllFiles fullPath (Inr entry) of
                  Inl e \<Rightarrow> Inl e
                | Inr sub \<Rightarrow> getAllFiles_loop dir rest (results @ sub))
             else getAllFiles_loop dir rest (results @ [fullPath]))"
  by pat_completeness auto
termination
  by (relation "measure (\<lambda>x. case x of
          Inl (dir, found) \<Rightarrow> (case found of Inl e \<Rightarrow> 0 | Inr n \<Rightarrow> 2 * size n + 1)
        | Inr (dir, items, results) \<Rightarrow> 2 * size_list (size_prod (\<lambda>_. 0) size) items)")
     auto

subsection \<open>The directory set and the classification\<close>

text \<open>\<^verbatim>\<open>Set.prototype.add\<close> on a set kept in insertion order.\<close>

definition set_add :: "string list \<Rightarrow> string \<Rightarrow> string list" where
  "set_add directories dir = (if dir \<in> set directories then directories else directories @ [dir])"

text \<open>
  \<^verbatim>\<open>getDirectories(files, mountDir)\<close>, lines 102-113;
  \<^verbatim>\<open>Array.from(directories).sort()\<close> is \<^term>\<open>sort\<close> on the strings.
\<close>

definition getDirectories :: "string \<Rightarrow> string list \<Rightarrow> string \<Rightarrow> string list" where
  "getDirectories cwd files mountDir =
     sort (foldl (\<lambda>directories file.
                    let dir = dirname (relative cwd mountDir file)
                    in if dir \<noteq> [] \<and> dir \<noteq> mountDir \<and> dir \<noteq> ''.''
                       then set_add directories dir
                       else directories)
                 [] files)"

record categorized =
  rootFiles :: "string list"
  subdirFiles :: "string list"

text \<open>\<^verbatim>\<open>categorizeFiles(files, mountDir)\<close>, lines 124-137.\<close>

definition categorizeFiles :: "string list \<Rightarrow> string \<Rightarrow> categorized" where
  "categorizeFiles files mountDir =
     foldl (\<lambda>acc file.
              if dirname file = mountDir
              then acc\<lparr>rootFiles := rootFiles acc @ [file]\<rparr>
              else acc\<lparr>subdirFiles := subdirFiles acc @ [file]\<rparr>)
           \<lparr>rootFiles = [], subdirFiles = []\<rparr> files"

subsection \<open>The emitted resources\<close>

text \<open>
  The provider classes \<^verbatim>\<open>StorageShare\<close>, \<^verbatim>\<open>StorageShareDirectory\<close> and
  \<^verbatim>\<open>StorageShareFile\<close> are records of the construct id and the configuration
  they are created with. A configuration key that the source leaves out is \<open>None\<close>.
  \<^verbatim>\<open>share.id\<close> is the reference to the share, here its construct id.
\<close>

record FileShareModuleProps =
  storageAccountName :: string
  localMountDir :: string
  shareName :: string
  quota :: "int option"

record StorageShare =
  share_id :: string
  share_name :: string
  share_storageAccountName :: string
  share_quota :: int

record StorageShareDirectory =
  dir_id :: string
  dir_name :: string
  dir_storageShareId :: string

record StorageShareFile =
  file_id :: string
  file_name :: string
  file_storageShareId :: string
  file_source :: string
  file_path :: "string option"
  file_dependsOn :: "StorageShareDirectory list"

record FileShare =
  share :: StorageShare
  shareDirectories :: "StorageShareDirectory list"
  shareFiles :: "StorageShareFile list"

text \<open>\<^verbatim>\<open>s.replace(/\//g, '_')\<close>.\<close>

definition replace_slash :: "string \<Rightarrow> string" where
  "replace_slash s = map (\<lambda>c. if c = CHR ''/'' then CHR ''_'' else c) s"

text \<open>
  The three places where \<^verbatim>\<open>createFileShare\<close> creates a resource:
  \<^verbatim>\<open>new StorageShare\<close> (lines 156-160; \<^verbatim>\<open>props.quota || 50\<close> is 50 when
  the quota is missing or 0), \<^verbatim>\<open>new StorageShareDirectory\<close> (lines 172-175)
  and the two \<^verbatim>\<open>new StorageShareFile\<close> (lines 183-188 for a file directly under
  the mount directory, lines 193-200 for the others).
\<close>

definition new_share :: "FileShareModuleProps \<Rightarrow> StorageShare" where
  "new_share props =
     \<lparr>share_id = ''share_'' @ shareName props,
      share_name = shareName props,
      share_storageAccountName = storageAccountName props,
      share_quota = (case quota props of None \<Rightarrow> 50 | Some q \<Rightarrow> if q = 0 then 50 else q)\<rparr>"

definition new_directory :: "FileShareModuleProps \<Rightarrow> StorageShare \<Rightarrow> string \<Rightarrow> StorageShareDirectory" where
  "new_directory props sh dir =
     \<lparr>dir_id = ''dir_'' @ shareName props @ ''_'' @ replace_slash dir,
      dir_name = dir,
      dir_storageShareId = share_id sh\<rparr>"

definition new_root_file ::
  "FileShareModuleProps \<Rightarrow> StorageShare \<Rightarrow> StorageShareDirectory list \<Rightarrow> string \<Rightarrow> StorageShareFile" where
  "new_root_file props sh shareDirs file =
     \<lparr>file_id = ''file_'' @ shareName props @ ''_root_'' @ basename file,
      file_name = basename file,
      file_storageShareId = share_id sh,
      file_source = file,
      file_path = None,
      file_dependsOn = shareDirs\<rparr>"

definition new_subdir_file ::
  "string \<Rightarrow> FileShareModuleProps \<Rightarrow> StorageShare \<Rightarrow> StorageShareDirectory list \<Rightarrow> string
     \<Rightarrow> StorageShareFile" where
  "new_subdir_file cwd props sh shareDirs file =
     (let relativePath = relative cwd (localMountDir props) file
      in \<lparr>file_id = ''file_'' @ shareName props @ ''_'' @ replace_slash relativePath,
          file_name = basename file,
          file_storageShareId = share_id sh,
          file_source = file,
          file_path = Some (if dirname relativePath = ''./'' then ''./'' else dirname relativePath),
          file_dependsOn = shareDirs\<rparr>)"

text \<open>
  Every resource is created in the scope \<^verbatim>\<open>this\<close>, the construct. The constructs
  library keeps the children of a scope by name, the id with every \<^verbatim>\<open>/\<close> replaced by
  \<^verbatim>\<open>--\<close>, and the constructor of a child throws when the scope has a child of that
  name already. The scope is the list of the children created so far;
  \<^verbatim>\<open>Other\<close> stands for a child of another class (the storage account, the
  container).
\<close>

datatype construct =
    Share StorageShare
  | ShareDirectory StorageShareDirectory
  | ShareFile StorageShareFile
  | Other string

datatype error = SystemError fs_error | DuplicateName string

fun construct_id :: "construct \<Rightarrow> string" where
  "construct_id (Share s) = share_id s"
| "construct_id (ShareDirectory d) = dir_id d"
| "construct_id (ShareFile f) = file_id f"
| "construct_id (Other i) = i"

definition sanitizeId :: "string \<Rightarrow> string" where
  "sanitizeId i = concat (map (\<lambda>c. if c = CHR ''/'' then ''--'' else [c]) i)"

definition construct_name :: "construct \<Rightarrow> string" where
  "construct_name c = sanitizeId (construct_id c)"

definition add_child :: "construct list \<Rightarrow> construct \<Rightarrow> error + construct list" where
  "add_child scope c =
     (if construct_name c \<in> construct_name ` set scope then Inl (DuplicateName (construct_name c))
      else Inr (scope @ [c]))"

text \<open>Children created one after the other; the first exception ends the creation.\<close>

fun add_children :: "construct list \<Rightarrow> construct list \<Rightarrow> construct list \<times> error option" where
  "add_children scope [] = (scope, None)"
| "add_children scope (c # cs) =
     (case add_child scope c of
        Inl e \<Rightarrow> (scope, Some e)
      | Inr scope' \<Rightarrow> add_children scope' cs)"

text \<open>
  \<^verbatim>\<open>createFileShare(props)\<close>, lines 155-204. \<open>cwd\<close> is the working directory of the
  process, \<open>scope\<close> the children of the construct before the call, \<open>fs\<close> the file system.
  The result is the scope after the call and either the exception or the resources that
  the call created: the share, the directory resources in creation order and the file
  resources in creation order (the files directly under the mount directory first). The
  share is created before the walk, so it is in the scope also when the walk fails. No
  exception is caught. The private map \<^verbatim>\<open>this.shares\<close> (line 162) is written and
  never read; it is not part of the state.
\<close>

definition createFileShare ::
  "string \<Rightarrow> FileShareModuleProps \<Rightarrow> construct list \<Rightarrow> fsnode
     \<Rightarrow> construct list \<times> (error + FileShare)" where
  "createFileShare cwd props scope fs =
     (let sh = new_share props
      in case add_child scope (Share sh) of
           Inl e \<Rightarrow> (scope, Inl e)
         | Inr scope1 \<Rightarrow>
             (case getAllFiles (localMountDir props) (node_at cwd fs (localMountDir props)) of
                Inl e \<Rightarrow> (scope1, Inl (SystemError e))
              | Inr files \<Rightarrow>
                  let directories = getDirectories cwd files (localMountDir props);
                      shareDirs = map (new_directory props sh) directories;
                      c = categorizeFiles files (localMountDir props);
                      rootOut = map (new_root_file props sh shareDirs) (rootFiles c);
                      subdirOut = map (new_subdir_file cwd props sh shareDirs) (subdirFiles c)
                  in case add_children scope1
                            (map ShareDirectory shareDirs @ map ShareFile rootOut
                             @ map ShareFile subdirOut) of
                       (scope2, Some e) \<Rightarrow> (scope2, Inl e)
                     | (scope2, None) \<Rightarrow>
                         (scope2, Inr \<lparr>share = sh,
                                       shareDirectories = shareDirs,
                                       shareFiles = rootOut @ subdirOut\<rparr>)))"

subsection \<open>Notions used to state the properties\<close>

text \<open>
  A name that \<^verbatim>\<open>readdirSync\<close> can return: not empty, not \<^verbatim>\<open>.\<close> or
  \<^verbatim>\<open>..\<close>, without a separator. A tree is well formed when it consists of
  directories and regular files and every entry has such a name.
\<close>

definition valid_name :: "string \<Rightarrow> bool" where
  "valid_name n = (n \<noteq> [] \<and> n \<noteq> ''.'' \<and> n \<noteq> ''..'' \<and> CHR ''/'' \<notin> set n)"

fun wf_node :: "fsnode \<Rightarrow> bool" where
  "wf_node File = True"
| "wf_node (Dir items) = (\<forall>(n, c) \<in> set items. valid_name n \<and> wf_node c)"
| "wf_node (StatFails e) = False"
| "wf_node (ReaddirFails e) = False"

text \<open>
  The regular files of a tree, each as the list of names that leads to it from the root of
  the tree, in the order of the entries; their number; and the number of distinct
  directories other than the root that hold a file directly.
\<close>

fun file_paths :: "fsnode \<Rightarrow> string list list" where
  "file_paths (Dir items) =
     concat (map (\<lambda>(n, c). if isDirectory c then map ((#) n) (file_paths c) else [[n]]) items)"
| "file_paths node = []"

fun count_files :: "fsnode \<Rightarrow> nat" where
  "count_files File = 1"
| "count_files (Dir items) = sum_list (map (\<lambda>(n, c). count_files c) items)"
| "count_files node = 0"

definition count_dirs :: "fsnode \<Rightarrow> nat" where
  "count_dirs node = card (set (filter (\<lambda>d. d \<noteq> []) (map butlast (file_paths node))))"

text \<open>The absolute path with the given segments.\<close>

definition abs_path :: "string list \<Rightarrow> string" where
  "abs_path segs = CHR ''/'' # join_slash segs"

text \<open>
  The directory set extractor without the comparison against the mount directory: only
  the empty string and \<^verbatim>\<open>.\<close> are excluded.
\<close>

definition getDirectories_no_root_test :: "string \<Rightarrow> string list \<Rightarrow> string \<Rightarrow> string list" where
  "getDirectories_no_root_test cwd files mountDir =
     sort (foldl (\<lambda>directories file.
                    let dir = dirname (relative cwd mountDir file)
                    in if dir \<noteq> [] \<and> dir \<noteq> ''.''
                       then set_add directories dir
                       else directories)
                 [] files)"

text \<open>
  The file resource of a nested file with \<^verbatim>\<open>path: path.dirname(relativePath)\<close>
  in place of the conditional expression of line 198.
\<close>

definition new_subdir_file_direct ::
  "string \<Rightarrow> FileShareModuleProps \<Rightarrow> StorageShare \<Rightarrow> StorageShareDirectory list \<Rightarrow> string
     \<Rightarrow> StorageShareFile" where
  "new_subdir_file_direct cwd props sh shareDirs file =
     (let relativePath = relative cwd (localMountDir props) file
      in \<lparr>file_id = ''file_'' @ shareName props @ ''_'' @ replace_slash relativePath,
          file_name = basename file,
          file_storageShareId = share_id sh,
          file_source = file,
          file_path = Some (dirname relativePath),
          file_dependsOn = shareDirs\<rparr>)"

subsection \<open>A file system and a scope\<close>

text \<open>
  The mount directory \<^verbatim>\<open>/repo/mountfiles/nginx\<close> with \<^verbatim>\<open>nginx.conf\<close>,
  \<^verbatim>\<open>conf.d/default.conf\<close> and an empty directory; the scope as the constructor
  leaves it before the first call (lines 33-46); and the resources of the call.
\<close>

definition nginx_props :: FileShareModuleProps where
  "nginx_props = \<lparr>storageAccountName = ''difystorage'', localMountDir = ''/repo/mountfiles/nginx'',
                   shareName = ''nginx'', quota = None\<rparr>"

definition nginx_tree :: fsnode where
  "nginx_tree =
     Dir [(''nginx.conf'', File), (''conf.d'', Dir [(''default.conf'', File)]), (''logs'', Dir [])]"

definition repo_fs :: "fsnode \<Rightarrow> fsnode" where
  "repo_fs mount = Dir [(''repo'', Dir [(''mountfiles'', Dir [(''nginx'', mount)])])]"

definition scope0 :: "construct list" where
  "scope0 = [Other ''storage_account'', Other ''container'']"

definition nginx_dirs :: "StorageShareDirectory list" where
  "nginx_dirs = [\<lparr>dir_id = ''dir_nginx_conf.d'', dir_name = ''conf.d'', dir_storageShareId = ''share_nginx''\<rparr>]"

definition nginx_plan :: FileShare where
  "nginx_plan =
     \<lparr>share = \<lparr>share_id = ''share_nginx'', share_name = ''nginx'',
                share_storageAccountName = ''difystorage'', share_quota = 50\<rparr>,
      shareDirectories = nginx_dirs,
      shareFiles =
        [\<lparr>file_id = ''file_nginx_root_nginx.conf'', file_name = ''nginx.conf'',
          file_storageShareId = ''share_nginx'',
          file_source = ''/repo/mountfiles/nginx/nginx.conf'',
          file_path = None, file_dependsOn = nginx_dirs\<rparr>,
         \<lparr>file_id = ''file_nginx_conf.d_default.conf'', file_name = ''default.conf'',
          file_storageShareId = ''share_nginx'',
          file_source = ''/repo/mountfiles/nginx/conf.d/default.conf'',
          file_path = Some ''conf.d'', file_dependsOn = nginx_dirs\<rparr>]\<rparr>"

definition nginx_scope :: "construct list" where
  "nginx_scope =
     scope0 @ [Share (share nginx_plan)] @ map ShareDirectory (shareDirectories nginx_plan)
     @ map ShareFile (shareFiles nginx_plan)"

text \<open>A mount directory with the files \<^verbatim>\<open>x\<close> and \<^verbatim>\<open>root/x\<close>.\<close>

definition colliding_tree :: fsnode where
  "colliding_tree = Dir [(''x'', File), (''root'', Dir [(''x'', File)])]"

section \<open>The path functions on well-formed paths\<close>

lemma split_path_ne: "split_path p \<noteq> []"
  by (induction p) (auto split: list.splits)

lemma split_path_noslash: "s \<in> set (split_path p) \<Longrightarrow> CHR ''/'' \<notin> set s"
  by (induction p arbitrary: s) (auto split: if_splits list.splits)

lemma split_path_single: "CHR ''/'' \<notin> set n \<Longrightarrow> split_path n = [n]"
  by (induction n) auto

lemma split_path_append:
  "split_path (a @ CHR ''/'' # b) = split_path a @ split_path b"
  using split_path_ne by (induction a) (auto split: list.splits)

lemma split_path_append_noslash:
  "CHR ''/'' \<notin> set a \<Longrightarrow> split_path (a @ CHR ''/'' # b) = a # split_path b"
  by (simp add: split_path_append split_path_single)

lemma split_join:
  "segs \<noteq> [] \<Longrightarrow> \<forall>s \<in> set segs. CHR ''/'' \<notin> set s \<Longrightarrow> split_path (join_slash segs) = segs"
  by (induction segs rule: join_slash.induct) (auto simp: split_path_single split_path_append_noslash)

lemma join_slash_snoc:
  "segs \<noteq> [] \<Longrightarrow> join_slash (segs @ [n]) = join_slash segs @ CHR ''/'' # n"
  by (induction segs rule: join_slash.induct) auto

lemma join_slash_Cons:
  "segs \<noteq> [] \<Longrightarrow> join_slash (s # segs) = s @ CHR ''/'' # join_slash segs"
  by (cases segs) auto

lemma join_slash_empty_iff:
  "\<forall>s \<in> set segs. s \<noteq> [] \<Longrightarrow> join_slash segs = [] \<longleftrightarrow> segs = []"
  by (induction segs rule: join_slash.induct) auto

lemma norm_fold_valid:
  "\<forall>s \<in> set segs. valid_name s \<Longrightarrow> foldl (norm_step b) acc segs = acc @ segs"
  by (induction segs arbitrary: acc) (auto simp: norm_step_def valid_name_def)

lemma norm_step_keeps_valid:
  "\<forall>s \<in> set acc. valid_name s \<Longrightarrow> CHR ''/'' \<notin> set seg \<Longrightarrow>
   \<forall>s \<in> set (norm_step False acc seg). valid_name s"
  by (auto simp: norm_step_def valid_name_def dest: in_set_butlastD)

lemma norm_fold_keeps_valid:
  "\<forall>s \<in> set acc. valid_name s \<Longrightarrow> \<forall>s \<in> set segs. CHR ''/'' \<notin> set s \<Longrightarrow>
   \<forall>s \<in> set (foldl (norm_step False) acc segs). valid_name s"
proof (induction segs arbitrary: acc)
  case Nil
  then show ?case by simp
next
  case (Cons a segs)
  have "\<forall>s \<in> set (norm_step False acc a). valid_name s"
    using Cons.prems by (intro norm_step_keeps_valid) auto
  then show ?case using Cons by simp
qed

lemma norm_segs_valid: "\<forall>s \<in> set (norm_segs False p). valid_name s"
  unfolding norm_segs_def
  by (rule norm_fold_keeps_valid) (auto dest: split_path_noslash)

lemma norm_segs_abs_path:
  assumes "\<forall>s \<in> set S. valid_name s"
  shows "norm_segs False (abs_path S) = S"
proof (cases "S = []")
  case True
  then show ?thesis by (simp add: norm_segs_def abs_path_def norm_step_def)
next
  case False
  have "\<forall>s \<in> set S. CHR ''/'' \<notin> set s" using assms by (auto simp: valid_name_def)
  then have "split_path (abs_path S) = [] # S"
    using False by (simp add: abs_path_def split_join)
  then show ?thesis
    using assms by (simp add: norm_segs_def norm_fold_valid norm_step_def)
qed

lemma norm_segs_snoc:
  assumes "valid_name n"
  shows "norm_segs b (d @ CHR ''/'' # n) = norm_segs b d @ [n]"
proof -
  have "split_path (d @ CHR ''/'' # n) = split_path d @ [n]"
    using assms by (simp add: split_path_append split_path_single valid_name_def)
  then show ?thesis
    using assms by (simp add: norm_segs_def norm_step_def valid_name_def)
qed

lemma norm_segs_trailing: "norm_segs b (d @ ''/'') = norm_segs b d"
proof -
  have "split_path (d @ ''/'') = split_path d @ [[]]"
    using split_path_append [of d "[]"] by simp
  then show ?thesis by (simp add: norm_segs_def norm_step_def)
qed

lemma path_join_abs:
  assumes "isAbsolute d" "valid_name n"
  shows "path_join d n = abs_path (norm_segs False d @ [n])"
proof -
  let ?p = "d @ CHR ''/'' # n"
  have n0: "n \<noteq> []" "CHR ''/'' \<notin> set n" using assms(2) by (auto simp: valid_name_def)
  have n: "n \<noteq> []" "last n \<noteq> CHR ''/''"
    using n0 by (simp, metis last_in_set)
  have abs: "isAbsolute ?p" using assms(1) by (auto simp: isAbsolute_def)
  have seg: "norm_segs False ?p = norm_segs False d @ [n]" by (rule norm_segs_snoc [OF assms(2)])
  have "\<forall>s \<in> set (norm_segs False d @ [n]). s \<noteq> []"
    using norm_segs_valid [of d] assms(2) by (auto simp: valid_name_def)
  then have ne: "join_slash (norm_segs False d @ [n]) \<noteq> []"
    by (subst join_slash_empty_iff) auto
  have "normalize ?p = abs_path (norm_segs False d @ [n])"
    using abs n ne by (simp add: normalize_def normalizeString_def seg abs_path_def Let_def)
  then show ?thesis using assms(1) n by (simp add: path_join_def isAbsolute_def)
qed

lemma isAbsolute_abs_path: "isAbsolute (abs_path S)"
  by (simp add: isAbsolute_def abs_path_def)

lemma resolve_abs:
  assumes "isAbsolute d"
  shows "resolve cwd d = abs_path (norm_segs False d)"
  using assms norm_segs_trailing [of False d]
  by (auto simp: resolve_def abs_path_def normalizeString_def isAbsolute_def Let_def)

lemma common_prefix_len_append: "common_prefix_len f (f @ t) = length f"
  by (induction f) auto

lemma join_slash_append:
  "A \<noteq> [] \<Longrightarrow> B \<noteq> [] \<Longrightarrow> join_slash (A @ B) = join_slash A @ CHR ''/'' # join_slash B"
  by (induction A rule: join_slash.induct) (auto simp: join_slash_Cons)

lemma join_slash_valid_ne:
  "p \<noteq> [] \<Longrightarrow> \<forall>s \<in> set p. valid_name s \<Longrightarrow> join_slash p \<noteq> []"
  by (cases p rule: join_slash.cases) (auto simp: valid_name_def)

lemma join_slash_valid_hd:
  "p \<noteq> [] \<Longrightarrow> \<forall>s \<in> set p. valid_name s \<Longrightarrow> hd (join_slash p) \<noteq> CHR ''/''"
proof -
  assume "p \<noteq> []" and v: "\<forall>s \<in> set p. valid_name s"
  then obtain s ss where p: "p = s # ss" by (cases p) auto
  have s: "s \<noteq> []" "CHR ''/'' \<notin> set s" using v p by (auto simp: valid_name_def)
  then have "hd s \<noteq> CHR ''/''" by (metis hd_in_set)
  moreover have "hd (join_slash p) = hd s" using s(1) p by (cases ss) auto
  ultimately show ?thesis by simp
qed

lemma abs_path_inj:
  assumes "\<forall>s \<in> set A. valid_name s" "\<forall>s \<in> set B. valid_name s" "abs_path A = abs_path B"
  shows "A = B"
  by (metis norm_segs_abs_path assms)

lemma relative_under:
  assumes abs: "isAbsolute root" and p: "p \<noteq> []" "\<forall>s \<in> set p. valid_name s"
  shows "relative cwd root (abs_path (norm_segs False root @ p)) = join_slash p"
proof -
  let ?R = "norm_segs False root"
  let ?to = "abs_path (?R @ p)"
  have vR: "\<forall>s \<in> set ?R. valid_name s" by (rule norm_segs_valid)
  have vRp: "\<forall>s \<in> set (?R @ p). valid_name s" using vR p(2) by auto
  have nto: "norm_segs False ?to = ?R @ p" by (rule norm_segs_abs_path [OF vRp])
  have ne0: "root \<noteq> ?to" using nto p(1) by auto
  have rf: "resolve cwd root = abs_path ?R" by (rule resolve_abs [OF abs])
  have rt: "resolve cwd ?to = ?to"
    using resolve_abs [OF isAbsolute_abs_path, of cwd "?R @ p"] nto by simp
  have ne1: "abs_path ?R \<noteq> ?to"
    using abs_path_inj [OF vR vRp] p(1) by auto
  have jp: "join_slash p \<noteq> []" "hd (join_slash p) \<noteq> CHR ''/''"
    using p by (auto simp: join_slash_valid_ne join_slash_valid_hd)
  show ?thesis
  proof (cases "?R = []")
    case True
    have "join_slash p ! 0 \<noteq> CHR ''/''" using jp by (simp add: hd_conv_nth)
    then show ?thesis
      using ne0 ne1 jp True unfolding relative_def relative_resolved_def rf rt
      by (simp add: abs_path_def Let_def)
  next
    case False
    have t: "join_slash (?R @ p) = join_slash ?R @ CHR ''/'' # join_slash p"
      by (rule join_slash_append [OF False p(1)])
    show ?thesis
      using ne0 ne1 unfolding relative_def relative_resolved_def rf rt
      by (simp add: abs_path_def Let_def t common_prefix_len_append nth_append)
  qed
qed

lemma dropWhile_rev_noslash:
  assumes "l \<noteq> []" "CHR ''/'' \<notin> set l"
  shows "dropWhile (\<lambda>c. c \<noteq> CHR ''/'') (dropWhile (\<lambda>c. c = CHR ''/'') (rev l @ CHR ''/'' # X))
         = CHR ''/'' # X"
proof -
  have "hd (rev l) \<noteq> CHR ''/''" using assms by (metis hd_rev last_in_set)
  then have "dropWhile (\<lambda>c. c = CHR ''/'') (rev l @ CHR ''/'' # X) = rev l @ CHR ''/'' # X"
    using assms(1) by (cases "rev l") auto
  moreover have "dropWhile (\<lambda>c. c \<noteq> CHR ''/'') (rev l @ CHR ''/'' # X) = CHR ''/'' # X"
    using assms(2) by (subst dropWhile_append2) auto
  ultimately show ?thesis by simp
qed

lemma dirname_eq:
  assumes "path \<noteq> []"
    and "dropWhile (\<lambda>c. c \<noteq> CHR ''/'') (dropWhile (\<lambda>c. c = CHR ''/'') (rev (tl path))) = r"
  shows "dirname path =
           (if r = [] then (if hd path = CHR ''/'' then ''/'' else ''.'')
            else if hd path = CHR ''/'' \<and> length r = 1 then ''//''
            else take (length r) path)"
  unfolding dirname_def Let_def assms(2) using assms(1) by (simp only: if_False)

lemma dirname_snoc:
  assumes "A \<noteq> []" "l \<noteq> []" "CHR ''/'' \<notin> set l" "\<not> (hd A = CHR ''/'' \<and> length A = 1)"
  shows "dirname (A @ CHR ''/'' # l) = A"
proof -
  let ?r = "CHR ''/'' # rev (tl A)"
  have tl: "rev (tl (A @ CHR ''/'' # l)) = rev l @ ?r"
    using assms(1) by simp
  have r: "dropWhile (\<lambda>c. c \<noteq> CHR ''/'')
             (dropWhile (\<lambda>c. c = CHR ''/'') (rev (tl (A @ CHR ''/'' # l)))) = ?r"
    unfolding tl by (rule dropWhile_rev_noslash [OF assms(2,3)])
  have len: "length ?r = length A" using assms(1) by (cases A) auto
  have hd: "hd (A @ CHR ''/'' # l) = hd A" using assms(1) by simp
  have c: "(hd A = CHR ''/'' \<and> length A = 1) = False" using assms(4) by blast
  have "dirname (A @ CHR ''/'' # l) = take (length A) (A @ CHR ''/'' # l)"
    using dirname_eq [OF _ r] unfolding len hd c by simp
  then show ?thesis by simp
qed

lemma dropWhile_noslash:
  assumes "CHR ''/'' \<notin> set X"
  shows "dropWhile (\<lambda>c. c \<noteq> CHR ''/'') (dropWhile (\<lambda>c. c = CHR ''/'') X) = []"
proof -
  have "dropWhile (\<lambda>c. c = CHR ''/'') X = X" using assms by (cases X) auto
  moreover have "dropWhile (\<lambda>c. c \<noteq> CHR ''/'') X = []" using assms by (induction X) auto
  ultimately show ?thesis by simp
qed

lemma dirname_noslash:
  assumes "CHR ''/'' \<notin> set l" "l \<noteq> []"
  shows "dirname l = ''.''"
proof -
  have "CHR ''/'' \<notin> set (rev (tl l))" using assms by (cases l) auto
  then have r: "dropWhile (\<lambda>c. c \<noteq> CHR ''/'') (dropWhile (\<lambda>c. c = CHR ''/'') (rev (tl l))) = []"
    by (rule dropWhile_noslash)
  have "hd l \<noteq> CHR ''/''" using assms by (cases l) auto
  then show ?thesis using dirname_eq [OF assms(2) r] by simp
qed

lemma dirname_root_child:
  assumes "CHR ''/'' \<notin> set l"
  shows "dirname (CHR ''/'' # l) = ''/''"
proof -
  have "CHR ''/'' \<notin> set (rev l)" using assms by simp
  then have "dropWhile (\<lambda>c. c \<noteq> CHR ''/'') (dropWhile (\<lambda>c. c = CHR ''/'') (rev l)) = []"
    by (rule dropWhile_noslash)
  then have r: "dropWhile (\<lambda>c. c \<noteq> CHR ''/'')
                 (dropWhile (\<lambda>c. c = CHR ''/'') (rev (tl (CHR ''/'' # l)))) = []"
    by (simp only: list.sel)
  have ne: "CHR ''/'' # l \<noteq> []" by simp
  show ?thesis using dirname_eq [OF ne r] by (simp only: list.sel if_True refl)
qed

lemma dirname_join_slash:
  assumes "\<forall>s \<in> set p. valid_name s" "p \<noteq> []"
  shows "dirname (join_slash p) = (if length p = 1 then ''.'' else join_slash (butlast p))"
proof (cases "length p = 1")
  case True
  then obtain n where "p = [n]" by (cases p) auto
  then show ?thesis using assms dirname_noslash [of n] by (simp add: valid_name_def)
next
  case False
  then have bl: "butlast p \<noteq> []" using assms(2) by (cases p) auto
  have vb: "\<forall>s \<in> set (butlast p). valid_name s" using assms(1) by (auto dest: in_set_butlastD)
  have l: "valid_name (last p)" using assms by auto
  have eq: "join_slash p = join_slash (butlast p) @ CHR ''/'' # last p"
    using join_slash_snoc [OF bl, of "last p"] assms(2) by simp
  have "dirname (join_slash (butlast p) @ CHR ''/'' # last p) = join_slash (butlast p)"
    using l join_slash_valid_ne [OF bl vb] join_slash_valid_hd [OF bl vb]
    by (intro dirname_snoc) (auto simp: valid_name_def)
  then show ?thesis using False eq by simp
qed

lemma dirname_abs_path_snoc:
  assumes "\<forall>s \<in> set S. valid_name s" "valid_name n"
  shows "dirname (abs_path (S @ [n])) = abs_path S"
proof (cases "S = []")
  case True
  then show ?thesis using assms(2) dirname_root_child [of n]
    by (simp add: abs_path_def valid_name_def)
next
  case False
  have ne: "join_slash S \<noteq> []" by (rule join_slash_valid_ne [OF False assms(1)])
  have "dirname ((CHR ''/'' # join_slash S) @ CHR ''/'' # n) = CHR ''/'' # join_slash S"
    using assms(2) ne by (intro dirname_snoc) (auto simp: valid_name_def)
  then show ?thesis using False by (simp add: abs_path_def join_slash_snoc)
qed

section \<open>The walk, the directory set and the classification\<close>

lemma file_paths_Cons:
  "file_paths (Dir ((n, c) # rest)) =
     (if isDirectory c then map ((#) n) (file_paths c) else [[n]]) @ file_paths (Dir rest)"
  by simp

lemma path_join_segs:
  assumes "isAbsolute d" "valid_name n"
  shows "isAbsolute (path_join d n)"
    and "norm_segs False (path_join d n) = norm_segs False d @ [n]"
proof -
  have v: "\<forall>s \<in> set (norm_segs False d @ [n]). valid_name s"
    using norm_segs_valid [of d] assms(2) by auto
  show "isAbsolute (path_join d n)"
    unfolding path_join_abs [OF assms] by (rule isAbsolute_abs_path)
  show "norm_segs False (path_join d n) = norm_segs False d @ [n]"
    unfolding path_join_abs [OF assms] by (rule norm_segs_abs_path [OF v])
qed

lemma wf_node_cases: "wf_node node \<Longrightarrow> node = File \<or> (\<exists>items. node = Dir items)"
  by (cases node) auto

text \<open>The walk of a well-formed tree found at an absolute directory.\<close>

lemma getAllFiles_walk:
  "isAbsolute dir \<Longrightarrow> found = Inr (Dir items) \<Longrightarrow> wf_node (Dir items) \<Longrightarrow>
     getAllFiles dir found
       = Inr (map (\<lambda>p. abs_path (norm_segs False dir @ p)) (file_paths (Dir items)))"
  "isAbsolute dir \<Longrightarrow> wf_node (Dir its) \<Longrightarrow>
     getAllFiles_loop dir its results
       = Inr (results @ map (\<lambda>p. abs_path (norm_segs False dir @ p)) (file_paths (Dir its)))"
proof (induction dir found and dir its results arbitrary: items rule: getAllFiles_getAllFiles_loop.induct)
  case (1 dir e)
  then show ?case by simp
next
  case (2 dir)
  then show ?case by simp
next
  case (3 dir e)
  then show ?case by simp
next
  case (4 dir e)
  then show ?case by simp
next
  case (5 dir items')
  then show ?case by simp
next
  case (6 dir results)
  then show ?case by simp
next
  case (7 dir item entry rest results)
  let ?S = "norm_segs False dir"
  let ?full = "path_join dir item"
  have vn: "valid_name item" and wfs: "wf_node entry" and wfr: "wf_node (Dir rest)"
    using "7.prems"(2) by auto
  have full: "?full = abs_path (?S @ [item])" by (rule path_join_abs [OF "7.prems"(1) vn])
  have absf: "isAbsolute ?full" and segf: "norm_segs False ?full = ?S @ [item]"
    using path_join_segs [OF "7.prems"(1) vn] by auto
  consider (is_file) "entry = File" | (is_dir) sub where "entry = Dir sub"
    using wf_node_cases [OF wfs] by blast
  then show ?case
  proof cases
    case is_file
    have st: "statSync entry = Inr entry" "\<not> isDirectory entry" using is_file by simp_all
    have "getAllFiles_loop dir rest (results @ [?full])
            = Inr ((results @ [?full]) @ map (\<lambda>p. abs_path (?S @ p)) (file_paths (Dir rest)))"
      by (rule "7.IH"(3) [OF refl st "7.prems"(1) wfr])
    then show ?thesis using is_file full by (simp del: file_paths.simps add: file_paths_Cons)
  next
    case (is_dir sub)
    have st: "statSync entry = Inr entry" "isDirectory entry" using is_dir by simp_all
    have sub: "getAllFiles ?full (Inr entry)
                 = Inr (map (\<lambda>p. abs_path ((?S @ [item]) @ p)) (file_paths entry))"
      using "7.IH"(1) [OF refl st absf _ , of sub] is_dir wfs segf by simp
    have "getAllFiles_loop dir rest (results @ map (\<lambda>p. abs_path ((?S @ [item]) @ p)) (file_paths entry))
            = Inr ((results @ map (\<lambda>p. abs_path ((?S @ [item]) @ p)) (file_paths entry))
                   @ map (\<lambda>p. abs_path (?S @ p)) (file_paths (Dir rest)))"
      by (rule "7.IH"(2) [OF refl st sub "7.prems"(1) wfr])
    then show ?thesis
      using is_dir sub by (simp del: file_paths.simps add: file_paths_Cons comp_def)
  qed
qed

lemma set_add_set: "set (set_add ds d) = insert d (set ds)"
  by (auto simp: set_add_def)

lemma set_add_distinct: "distinct ds \<Longrightarrow> distinct (set_add ds d)"
  by (auto simp: set_add_def)

lemma collect_dirs_set:
  "set (foldl (\<lambda>directories file. let dir = g file in
                 if ok dir then set_add directories dir else directories) acc files)
     = set acc \<union> {d. \<exists>f \<in> set files. d = g f \<and> ok d}"
  by (induction files arbitrary: acc) (auto simp: set_add_set Let_def)

lemma collect_dirs_distinct:
  "distinct acc \<Longrightarrow>
   distinct (foldl (\<lambda>directories file. let dir = g file in
                 if ok dir then set_add directories dir else directories) acc files)"
  by (induction files arbitrary: acc) (auto simp: set_add_distinct Let_def)

lemma getDirectories_set:
  "set (getDirectories cwd files m)
     = {d. \<exists>f \<in> set files. d = dirname (relative cwd m f) \<and> d \<noteq> [] \<and> d \<noteq> m \<and> d \<noteq> ''.''}"
  unfolding getDirectories_def
  using collect_dirs_set [of "\<lambda>f. dirname (relative cwd m f)"
                             "\<lambda>d. d \<noteq> [] \<and> d \<noteq> m \<and> d \<noteq> ''.''" "[]" files]
  by simp

lemma getDirectories_distinct: "distinct (getDirectories cwd files m)"
  unfolding getDirectories_def
  using collect_dirs_distinct [of "[]" "\<lambda>f. dirname (relative cwd m f)"
                             "\<lambda>d. d \<noteq> [] \<and> d \<noteq> m \<and> d \<noteq> ''.''" files]
  by simp

lemma getDirectories_sorted: "sorted (getDirectories cwd files m)"
  unfolding getDirectories_def by simp

lemma categorize_fold:
  "foldl (\<lambda>acc file. if dirname file = m
                       then acc\<lparr>rootFiles := rootFiles acc @ [file]\<rparr>
                       else acc\<lparr>subdirFiles := subdirFiles acc @ [file]\<rparr>) a files
     = \<lparr>rootFiles = rootFiles a @ filter (\<lambda>f. dirname f = m) files,
        subdirFiles = subdirFiles a @ filter (\<lambda>f. dirname f \<noteq> m) files\<rparr>"
  by (induction files arbitrary: a) auto

lemma rootFiles_categorize:
  "rootFiles (categorizeFiles files m) = filter (\<lambda>f. dirname f = m) files"
  by (simp add: categorizeFiles_def categorize_fold)

lemma subdirFiles_categorize:
  "subdirFiles (categorizeFiles files m) = filter (\<lambda>f. dirname f \<noteq> m) files"
  by (simp add: categorizeFiles_def categorize_fold)

text \<open>What a call that returns has created, and what a failing walk leaves.\<close>

lemma createFileShare_built:
  assumes "createFileShare cwd props scope fs = (scope', Inr plan)"
  shows "\<exists>files. getAllFiles (localMountDir props) (node_at cwd fs (localMountDir props)) = Inr files
           \<and> plan = \<lparr>share = new_share props,
                shareDirectories =
                  map (new_directory props (new_share props))
                      (getDirectories cwd files (localMountDir props)),
                shareFiles =
                  map (new_root_file props (new_share props)
                        (map (new_directory props (new_share props))
                             (getDirectories cwd files (localMountDir props))))
                      (rootFiles (categorizeFiles files (localMountDir props)))
                  @ map (new_subdir_file cwd props (new_share props)
                        (map (new_directory props (new_share props))
                             (getDirectories cwd files (localMountDir props))))
                      (subdirFiles (categorizeFiles files (localMountDir props)))\<rparr>"
  using assms
  by (auto simp: createFileShare_def Let_def split: sum.splits prod.splits option.splits)

lemma createFileShare_InrD:
  assumes "createFileShare cwd props scope fs = (scope', Inr plan)"
  obtains files where
    "getAllFiles (localMountDir props) (node_at cwd fs (localMountDir props)) = Inr files"
    "shareDirectories plan =
       map (new_directory props (new_share props)) (getDirectories cwd files (localMountDir props))"
    "shareFiles plan =
       map (new_root_file props (new_share props) (shareDirectories plan))
           (rootFiles (categorizeFiles files (localMountDir props)))
       @ map (new_subdir_file cwd props (new_share props) (shareDirectories plan))
           (subdirFiles (categorizeFiles files (localMountDir props)))"
proof -
  obtain files where
    g: "getAllFiles (localMountDir props) (node_at cwd fs (localMountDir props)) = Inr files"
    and p: "plan = \<lparr>share = new_share props,
                shareDirectories =
                  map (new_directory props (new_share props))
                      (getDirectories cwd files (localMountDir props)),
                shareFiles =
                  map (new_root_file props (new_share props)
                        (map (new_directory props (new_share props))
                             (getDirectories cwd files (localMountDir props))))
                      (rootFiles (categorizeFiles files (localMountDir props)))
                  @ map (new_subdir_file cwd props (new_share props)
                        (map (new_directory props (new_share props))
                             (getDirectories cwd files (localMountDir props))))
                      (subdirFiles (categorizeFiles files (localMountDir props)))\<rparr>"
    using createFileShare_built [OF assms] by blast
  show ?thesis
    by (rule that [OF g]) (simp_all add: p)
qed


lemma add_child_fresh:
  "construct_name c \<notin> construct_name ` set scope \<Longrightarrow> add_child scope c = Inr (scope @ [c])"
  by (simp add: add_child_def)

lemma new_subdir_file_path:
  "file_path (new_subdir_file cwd props sh ds f) = Some (dirname (relative cwd (localMountDir props) f))"
  by (simp add: new_subdir_file_def Let_def)

lemma new_subdir_file_sel:
  "file_source (new_subdir_file cwd props sh ds f) = f"
  "file_dependsOn (new_subdir_file cwd props sh ds f) = ds"
  "file_name (new_subdir_file cwd props sh ds f) = basename f"
  by (simp_all add: new_subdir_file_def Let_def)

lemma new_root_file_sel:
  "file_source (new_root_file props sh ds f) = f"
  "file_dependsOn (new_root_file props sh ds f) = ds"
  "file_name (new_root_file props sh ds f) = basename f"
  "file_path (new_root_file props sh ds f) = None"
  by (simp_all add: new_root_file_def)

lemma new_directory_sel: "dir_name (new_directory props sh d) = d"
  by (simp add: new_directory_def)

text \<open>
  The construct ids are not injective in the files: the file \<^verbatim>\<open>x\<close> directly under
  the mount directory and the file \<^verbatim>\<open>root/x\<close> get the same id.
\<close>

lemma construct_ids_can_coincide:
  "file_id (new_root_file nginx_props (new_share nginx_props) [] ''/repo/mountfiles/nginx/x'')
     = file_id (new_subdir_file ''/repo'' nginx_props (new_share nginx_props) []
                  ''/repo/mountfiles/nginx/root/x'')"
  by code_simp

section \<open>Properties of the plan\<close>

lemma nginx_createFileShare:
  "createFileShare ''/repo'' nginx_props scope0 (repo_fs nginx_tree) = (nginx_scope, Inr nginx_plan)"
  by code_simp

lemma nginx_node_at:
  "node_at ''/repo'' (repo_fs nginx_tree) (localMountDir nginx_props) = Inr nginx_tree"
  by code_simp

lemma nginx_getAllFiles:
  "getAllFiles (localMountDir nginx_props)
     (node_at ''/repo'' (repo_fs nginx_tree) (localMountDir nginx_props))
     = Inr [''/repo/mountfiles/nginx/nginx.conf'', ''/repo/mountfiles/nginx/conf.d/default.conf'']"
  by code_simp

text \<open>
  \<^bold>\<open>C2\<close>. In every plan, every file resource, whether its file lies directly under the
  mount directory or deeper, depends on the whole list of directory resources of that
  plan.
\<close>

theorem C2_files_depend_on_all_directories:
  assumes "createFileShare cwd props scope fs = (scope', Inr plan)"
  shows "\<forall>f \<in> set (shareFiles plan). file_dependsOn f = shareDirectories plan"
proof -
  obtain files where
    "shareFiles plan =
       map (new_root_file props (new_share props) (shareDirectories plan))
           (rootFiles (categorizeFiles files (localMountDir props)))
       @ map (new_subdir_file cwd props (new_share props) (shareDirectories plan))
           (subdirFiles (categorizeFiles files (localMountDir props)))"
    using assms by (rule createFileShare_InrD)
  then show ?thesis
    by (auto simp: new_root_file_sel new_subdir_file_sel)
qed

theorem C2_witness:
  "createFileShare ''/repo'' nginx_props scope0 (repo_fs nginx_tree) = (nginx_scope, Inr nginx_plan)
   \<and> list_all (\<lambda>f. file_dependsOn f = shareDirectories nginx_plan) (shareFiles nginx_plan)
   \<and> length (shareFiles nginx_plan) = 2"
  using C2_files_depend_on_all_directories [OF nginx_createFileShare]
  by (simp add: nginx_createFileShare list_all_iff nginx_plan_def)

text \<open>
  \<^bold>\<open>C5\<close>. For every list of files and every mount directory, \<^verbatim>\<open>getDirectories\<close>
  returns exactly the directories of the files relative to the mount directory, that is
  the values \<^verbatim>\<open>path.dirname(path.relative(mountDir, file))\<close>, that are not the
  empty string, \<^verbatim>\<open>.\<close> or the mount directory itself, each once, in ascending
  lexicographic order.
\<close>

theorem C5_directory_set_extractor:
  "set (getDirectories cwd files mountDir)
     = {d. \<exists>f \<in> set files. d = dirname (relative cwd mountDir f)
                             \<and> d \<noteq> [] \<and> d \<noteq> ''.'' \<and> d \<noteq> mountDir}
   \<and> distinct (getDirectories cwd files mountDir)
   \<and> sorted (getDirectories cwd files mountDir)"
  using getDirectories_set [of cwd files mountDir] getDirectories_distinct getDirectories_sorted
  by auto

theorem C5_witness:
  "getDirectories ''/repo''
     [''/srv/m/z/k'', ''/srv/m/top'', ''/srv/m/a/b/y'', ''/srv/m/z/x'', ''/srv/m/a/w''] ''/srv/m''
     = [''a'', ''a/b'', ''z'']
   \<and> set [''a'', ''a/b'', ''z'']
     = {d. \<exists>f \<in> set [''/srv/m/z/k'', ''/srv/m/top'', ''/srv/m/a/b/y'', ''/srv/m/z/x'', ''/srv/m/a/w''].
              d = dirname (relative ''/repo'' ''/srv/m'' f) \<and> d \<noteq> [] \<and> d \<noteq> ''.'' \<and> d \<noteq> ''/srv/m''}"
proof -
  have e: "getDirectories ''/repo''
     [''/srv/m/z/k'', ''/srv/m/top'', ''/srv/m/a/b/y'', ''/srv/m/z/x'', ''/srv/m/a/w''] ''/srv/m''
     = [''a'', ''a/b'', ''z'']"
    by code_simp
  show ?thesis
    using C5_directory_set_extractor [of "''/repo''"
      "[''/srv/m/z/k'', ''/srv/m/top'', ''/srv/m/a/b/y'', ''/srv/m/z/x'', ''/srv/m/a/w'']" "''/srv/m''"]
    unfolding e by blast
qed

text \<open>
  \<^bold>\<open>C6\<close>. A file is classified as root-level exactly when its \<^verbatim>\<open>dirname\<close> equals
  the mount directory. In a plan, a file resource whose source has the mount directory as
  \<^verbatim>\<open>dirname\<close> has no path, and every file classified as root-level has such a
  resource, named by its base name.
\<close>

theorem C6_root_level_classification:
  "(f \<in> set (rootFiles (categorizeFiles files mountDir))
      \<longleftrightarrow> f \<in> set files \<and> dirname f = mountDir)
   \<and> (createFileShare cwd props scope fs = (scope', Inr plan) \<longrightarrow>
        (\<forall>r \<in> set (shareFiles plan).
           dirname (file_source r) = localMountDir props \<longrightarrow> file_path r = None)
        \<and> (\<forall>files'. getAllFiles (localMountDir props) (node_at cwd fs (localMountDir props)) = Inr files' \<longrightarrow>
             (\<forall>g \<in> set (rootFiles (categorizeFiles files' (localMountDir props))).
                \<exists>r \<in> set (shareFiles plan).
                  file_source r = g \<and> file_name r = basename g \<and> file_path r = None)))"
proof -
  have 1: "f \<in> set (rootFiles (categorizeFiles files mountDir))
             \<longleftrightarrow> f \<in> set files \<and> dirname f = mountDir"
    by (auto simp: rootFiles_categorize)
  have 2: "(\<forall>r \<in> set (shareFiles plan).
              dirname (file_source r) = localMountDir props \<longrightarrow> file_path r = None)
           \<and> (\<forall>files'. getAllFiles (localMountDir props) (node_at cwd fs (localMountDir props)) = Inr files' \<longrightarrow>
                (\<forall>g \<in> set (rootFiles (categorizeFiles files' (localMountDir props))).
                   \<exists>r \<in> set (shareFiles plan).
                     file_source r = g \<and> file_name r = basename g \<and> file_path r = None))"
    if p: "createFileShare cwd props scope fs = (scope', Inr plan)"
  proof -
    obtain files0 where
      g: "getAllFiles (localMountDir props) (node_at cwd fs (localMountDir props)) = Inr files0"
      and plan: "shareFiles plan =
        map (new_root_file props (new_share props) (shareDirectories plan))
            (rootFiles (categorizeFiles files0 (localMountDir props)))
        @ map (new_subdir_file cwd props (new_share props) (shareDirectories plan))
            (subdirFiles (categorizeFiles files0 (localMountDir props)))"
      using p by (rule createFileShare_InrD)
    have a: "\<forall>r \<in> set (shareFiles plan).
               dirname (file_source r) = localMountDir props \<longrightarrow> file_path r = None"
      unfolding plan
      by (auto simp: new_root_file_sel new_subdir_file_sel subdirFiles_categorize)
    have b: "\<exists>r \<in> set (shareFiles plan).
               file_source r = g \<and> file_name r = basename g \<and> file_path r = None"
      if "g \<in> set (rootFiles (categorizeFiles files0 (localMountDir props)))" for g
    proof -
      have "new_root_file props (new_share props) (shareDirectories plan) g \<in> set (shareFiles plan)"
        unfolding plan using that by simp
      then show ?thesis by (auto simp: new_root_file_sel intro!: bexI)
    qed
    show ?thesis using a b g by auto
  qed
  show ?thesis using 1 2 by blast
qed

theorem C6_witness:
  "createFileShare ''/repo'' nginx_props scope0 (repo_fs nginx_tree) = (nginx_scope, Inr nginx_plan)
   \<and> rootFiles (categorizeFiles [''/repo/mountfiles/nginx/nginx.conf'',
                                 ''/repo/mountfiles/nginx/conf.d/default.conf'']
                                (localMountDir nginx_props))
       = [''/repo/mountfiles/nginx/nginx.conf'']
   \<and> dirname ''/repo/mountfiles/nginx/nginx.conf'' = localMountDir nginx_props
   \<and> map file_path (filter (\<lambda>r. file_source r = ''/repo/mountfiles/nginx/nginx.conf'')
                             (shareFiles nginx_plan)) = [None]"
proof -
  have c: "rootFiles (categorizeFiles [''/repo/mountfiles/nginx/nginx.conf'',
                                 ''/repo/mountfiles/nginx/conf.d/default.conf'']
                                (localMountDir nginx_props))
       = [''/repo/mountfiles/nginx/nginx.conf'']"
    by code_simp
  have d: "dirname ''/repo/mountfiles/nginx/nginx.conf'' = localMountDir nginx_props"
    by code_simp
  have e: "map file_path (filter (\<lambda>r. file_source r = ''/repo/mountfiles/nginx/nginx.conf'')
                             (shareFiles nginx_plan)) = [None]"
    by code_simp
  show ?thesis
    using C6_root_level_classification [of "''/repo/mountfiles/nginx/nginx.conf''"
        "[''/repo/mountfiles/nginx/nginx.conf'', ''/repo/mountfiles/nginx/conf.d/default.conf'']"
        "localMountDir nginx_props" "''/repo''" nginx_props scope0 "repo_fs nginx_tree"
        nginx_scope nginx_plan]
      nginx_createFileShare c d e
    by blast
qed

text \<open>
  \<^bold>\<open>C8\<close>. Every directory resource of a plan hosts a file of the plan: it is
  \<^verbatim>\<open>dirname(relative(mountDir, f))\<close> for the source \<open>f\<close> of some file resource,
  one of the enumerated files. A directory without files below it yields no resource.
\<close>

theorem C8_every_directory_hosts_a_file:
  assumes "createFileShare cwd props scope fs = (scope', Inr plan)"
  shows "\<forall>d \<in> set (shareDirectories plan).
           \<exists>r \<in> set (shareFiles plan).
             dirname (relative cwd (localMountDir props) (file_source r)) = dir_name d
             \<and> (\<exists>files. getAllFiles (localMountDir props) (node_at cwd fs (localMountDir props)) = Inr files \<and> file_source r \<in> set files)"
proof
  fix d assume d: "d \<in> set (shareDirectories plan)"
  let ?m = "localMountDir props"
  obtain files where
    g: "getAllFiles ?m (node_at cwd fs ?m) = Inr files"
    and dirs: "shareDirectories plan
                 = map (new_directory props (new_share props)) (getDirectories cwd files ?m)"
    and files: "shareFiles plan =
        map (new_root_file props (new_share props) (shareDirectories plan))
            (rootFiles (categorizeFiles files ?m))
        @ map (new_subdir_file cwd props (new_share props) (shareDirectories plan))
            (subdirFiles (categorizeFiles files ?m))"
    using assms by (rule createFileShare_InrD)
  have sf: "map file_source (shareFiles plan)
              = filter (\<lambda>f. dirname f = ?m) files @ filter (\<lambda>f. dirname f \<noteq> ?m) files"
    unfolding files
    by (simp add: new_root_file_sel new_subdir_file_sel rootFiles_categorize subdirFiles_categorize
                   comp_def)
  have src: "set (map file_source (shareFiles plan)) = set files"
    unfolding sf by auto
  have "dir_name d \<in> set (getDirectories cwd files ?m)"
    using d unfolding dirs by (auto simp: new_directory_sel)
  then obtain f where f: "f \<in> set files" "dirname (relative cwd ?m f) = dir_name d"
    unfolding getDirectories_set by auto
  obtain r where r: "r \<in> set (shareFiles plan)" "file_source r = f"
    using f(1) src by (metis (no_types, lifting) imageE set_map)
  show "\<exists>r \<in> set (shareFiles plan).
             dirname (relative cwd (localMountDir props) (file_source r)) = dir_name d
             \<and> (\<exists>files. getAllFiles (localMountDir props) (node_at cwd fs (localMountDir props)) = Inr files \<and> file_source r \<in> set files)"
    using r f g by auto
qed

theorem C8_witness:
  "createFileShare ''/repo'' nginx_props scope0 (repo_fs nginx_tree) = (nginx_scope, Inr nginx_plan)
   \<and> map dir_name (shareDirectories nginx_plan) = [''conf.d'']
   \<and> ''logs'' \<notin> set (map dir_name (shareDirectories nginx_plan))
   \<and> list_ex (\<lambda>r. dirname (relative ''/repo'' (localMountDir nginx_props) (file_source r)) = ''conf.d'')
              (shareFiles nginx_plan)"
proof -
  have e: "map dir_name (shareDirectories nginx_plan) = [''conf.d'']" by code_simp
  then have m: "\<lparr>dir_id = ''dir_nginx_conf.d'', dir_name = ''conf.d'', dir_storageShareId = ''share_nginx''\<rparr>
                  \<in> set (shareDirectories nginx_plan)"
    by (simp add: nginx_plan_def nginx_dirs_def)
  show ?thesis
    using C8_every_directory_hosts_a_file [OF nginx_createFileShare] m e nginx_createFileShare
    by (auto simp: list_ex_iff)
qed

lemma file_paths_valid:
  "wf_node node \<Longrightarrow> p \<in> set (file_paths node) \<Longrightarrow> p \<noteq> [] \<and> (\<forall>s \<in> set p. valid_name s)"
proof (induction node arbitrary: p rule: file_paths.induct)
  case (1 items)
  from "1.prems"(2) obtain n c where nc: "(n, c) \<in> set items"
    and p: "p \<in> set (if isDirectory c then map ((#) n) (file_paths c) else [[n]])"
    by auto
  have vn: "valid_name n" and wc: "wf_node c" using "1.prems"(1) nc by auto
  show ?case
  proof (cases "isDirectory c")
    case True
    then obtain q where q: "q \<in> set (file_paths c)" "p = n # q" using p by auto
    have "q \<noteq> [] \<and> (\<forall>s \<in> set q. valid_name s)"
      using "1.IH" [OF nc refl True wc q(1)] .
    then show ?thesis using q(2) vn by simp
  next
    case False
    then show ?thesis using p vn by simp
  qed
qed simp_all

lemma length_file_paths:
  "wf_node node \<Longrightarrow> isDirectory node \<Longrightarrow> length (file_paths node) = count_files node"
proof (induction node rule: file_paths.induct)
  case (1 items)
  have "length (if isDirectory c then map ((#) n) (file_paths c) else [[n]]) = count_files c"
    if nc: "(n, c) \<in> set items" for n c
  proof -
    have wc: "wf_node c" using "1.prems"(1) nc by auto
    show ?thesis
    proof (cases "isDirectory c")
      case True
      then show ?thesis using "1.IH" [OF nc refl True wc True] by simp
    next
      case False
      then show ?thesis using wc by (cases c) auto
    qed
  qed
  then have eq: "map (length \<circ> (\<lambda>(n, c).
                 if isDirectory c then map ((#) n) (file_paths c) else [[n]])) items
             = map (\<lambda>(n, c). count_files c) items"
    by (intro map_cong) auto
  show ?case by (simp only: file_paths.simps count_files.simps length_concat map_map eq)
qed simp_all

lemma join_slash_not_dot:
  assumes "b \<noteq> []" "\<forall>s \<in> set b. valid_name s"
  shows "join_slash b \<noteq> ''.''"
proof
  assume e: "join_slash b = ''.''"
  have "\<forall>s \<in> set b. CHR ''/'' \<notin> set s" using assms(2) by (simp add: valid_name_def)
  then have sp: "split_path (join_slash b) = b" by (rule split_join [OF assms(1)])
  have "split_path ''.'' = [''.'']" by simp
  then have "b = [''.'']" using sp [unfolded e] by metis
  then show False using assms(2) by (simp add: valid_name_def)
qed

lemma join_slash_inj:
  assumes "a \<noteq> []" "\<forall>s \<in> set a. valid_name s" "b \<noteq> []" "\<forall>s \<in> set b. valid_name s"
    and "join_slash a = join_slash b"
  shows "a = b"
proof -
  have "\<forall>s \<in> set a. CHR ''/'' \<notin> set s" "\<forall>s \<in> set b. CHR ''/'' \<notin> set s"
    using assms(2,4) by (simp_all add: valid_name_def)
  then have "split_path (join_slash a) = a" "split_path (join_slash b) = b"
    using split_join [OF assms(1)] split_join [OF assms(3)] by blast+
  then show ?thesis using assms(5) by metis
qed

lemma isAbsolute_hd: "isAbsolute m \<Longrightarrow> hd m = CHR ''/'' \<and> m \<noteq> []"
  by (simp add: isAbsolute_def)

text \<open>What the walk returns for a well-formed tree under an absolute directory, and the
  relative directory of each of the files.\<close>

lemma getAllFiles_tree:
  assumes "isAbsolute m" "wf_node (Dir items)"
  shows "getAllFiles m (Inr (Dir items))
           = Inr (map (\<lambda>p. abs_path (norm_segs False m @ p)) (file_paths (Dir items)))"
  by (rule getAllFiles_walk(1) [OF assms(1) refl assms(2)])

lemma reldir_of_file:
  assumes "isAbsolute m" "p \<noteq> []" "\<forall>s \<in> set p. valid_name s"
  shows "dirname (relative cwd m (abs_path (norm_segs False m @ p)))
           = (if length p = 1 then ''.'' else join_slash (butlast p))"
  unfolding relative_under [OF assms] by (rule dirname_join_slash [OF assms(3,2)])

lemma reldir_ok:
  assumes "isAbsolute m" "b \<noteq> []" "\<forall>s \<in> set b. valid_name s"
  shows "join_slash b \<noteq> [] \<and> join_slash b \<noteq> m \<and> join_slash b \<noteq> ''.''"
  using join_slash_valid_ne [OF assms(2,3)] join_slash_valid_hd [OF assms(2,3)]
        join_slash_not_dot [OF assms(2,3)] isAbsolute_hd [OF assms(1)]
  by auto

lemma getDirectories_paths:
  assumes "isAbsolute m" and vFP: "\<forall>p \<in> set FP. p \<noteq> [] \<and> (\<forall>s \<in> set p. valid_name s)"
  shows "set (getDirectories cwd (map (\<lambda>p. abs_path (norm_segs False m @ p)) FP) m)
           = join_slash ` set (filter (\<lambda>d. d \<noteq> []) (map butlast FP))"
    (is "?L = ?R")
proof (intro set_eqI iffI)
  fix d assume "d \<in> ?L"
  then have "\<exists>f \<in> set (map (\<lambda>p. abs_path (norm_segs False m @ p)) FP).
               d = dirname (relative cwd m f) \<and> d \<noteq> [] \<and> d \<noteq> m \<and> d \<noteq> ''.''"
    unfolding getDirectories_set by blast
  then obtain p where p: "p \<in> set FP"
    and d: "d = dirname (relative cwd m (abs_path (norm_segs False m @ p)))"
    and ok: "d \<noteq> ''.''"
    unfolding set_map by blast
  have v: "p \<noteq> []" "\<forall>s \<in> set p. valid_name s"
    using vFP p by blast+
  have d': "d = (if length p = 1 then ''.'' else join_slash (butlast p))"
    unfolding d by (rule reldir_of_file [OF assms(1) v])
  have len: "length p \<noteq> 1" using ok d' by metis
  then have "butlast p \<noteq> []" using v(1) by (cases p) auto
  moreover have "d = join_slash (butlast p)" using d' len by metis
  ultimately have "\<exists>b \<in> set (filter (\<lambda>d. d \<noteq> []) (map butlast FP)). d = join_slash b"
    using p unfolding set_filter set_map by blast
  then show "d \<in> ?R" by blast
next
  fix d assume "d \<in> ?R"
  then obtain p where p: "p \<in> set FP" and b: "butlast p \<noteq> []"
    and d: "d = join_slash (butlast p)"
    unfolding set_filter set_map by blast
  have v: "p \<noteq> []" "\<forall>s \<in> set p. valid_name s"
    using vFP p by blast+
  have vb: "\<forall>s \<in> set (butlast p). valid_name s" using v(2) by (metis in_set_butlastD)
  have len: "length p \<noteq> 1" using b by (cases p) auto
  have "dirname (relative cwd m (abs_path (norm_segs False m @ p)))
          = (if length p = 1 then ''.'' else join_slash (butlast p))"
    by (rule reldir_of_file [OF assms(1) v])
  then have e: "dirname (relative cwd m (abs_path (norm_segs False m @ p))) = d"
    using len d by metis
  have ok: "d \<noteq> [] \<and> d \<noteq> m \<and> d \<noteq> ''.''"
    unfolding d by (rule reldir_ok [OF assms(1) b vb])
  have "abs_path (norm_segs False m @ p) \<in> set (map (\<lambda>p. abs_path (norm_segs False m @ p)) FP)"
    using p unfolding set_map by blast
  then show "d \<in> ?L"
    unfolding getDirectories_set using e ok by blast
qed

lemma length_getDirectories_paths:
  assumes "isAbsolute m" and vFP: "\<forall>p \<in> set FP. p \<noteq> [] \<and> (\<forall>s \<in> set p. valid_name s)"
  shows "length (getDirectories cwd (map (\<lambda>p. abs_path (norm_segs False m @ p)) FP) m)
           = card (set (filter (\<lambda>d. d \<noteq> []) (map butlast FP)))"
proof -
  let ?X = "set (filter (\<lambda>d. d \<noteq> []) (map butlast FP))"
  have vX: "b \<noteq> [] \<and> (\<forall>s \<in> set b. valid_name s)" if bX: "b \<in> ?X" for b
  proof -
    obtain p where p: "p \<in> set FP" "b = butlast p" "b \<noteq> []"
      using bX unfolding set_filter set_map by blast
    have "\<forall>s \<in> set p. valid_name s" using vFP p(1) by blast
    then have "\<forall>s \<in> set (butlast p). valid_name s" by (metis in_set_butlastD)
    then show ?thesis using p(2,3) by blast
  qed
  have inj: "inj_on join_slash ?X"
    by (rule inj_onI) (metis join_slash_inj vX)
  have "length (getDirectories cwd (map (\<lambda>p. abs_path (norm_segs False m @ p)) FP) m)
          = card (join_slash ` ?X)"
    using distinct_card [OF getDirectories_distinct] getDirectories_paths [OF assms] by metis
  also have "\<dots> = card ?X" by (rule card_image [OF inj])
  finally show ?thesis .
qed

lemma file_paths_all_valid:
  "wf_node node \<Longrightarrow> \<forall>p \<in> set (file_paths node). p \<noteq> [] \<and> (\<forall>s \<in> set p. valid_name s)"
  using file_paths_valid by blast

text \<open>Children with names that are new and different are all created.\<close>

lemma add_children_distinct:
  "distinct (map construct_name (scope @ cs)) \<Longrightarrow> add_children scope cs = (scope @ cs, None)"
proof (induction cs arbitrary: scope)
  case Nil
  then show ?case by simp
next
  case (Cons c cs)
  have "construct_name c \<notin> construct_name ` set scope" using Cons.prems by auto
  then have a: "add_child scope c = Inr (scope @ [c])" by (rule add_child_fresh)
  have "distinct (map construct_name ((scope @ [c]) @ cs))" using Cons.prems by simp
  then have "add_children (scope @ [c]) cs = ((scope @ [c]) @ cs, None)" by (rule Cons.IH)
  then show ?case using a by simp
qed

text \<open>
  The plan of a well-formed tree found at an absolute mount directory, when it is built:
  as many directory resources as the tree has directories with a file, as many file
  resources as it has files. It is built when the names of the resources are new in the
  scope and different from each other.
\<close>

lemma built_plan_counts:
  assumes abs: "isAbsolute (localMountDir props)"
    and node: "node_at cwd fs (localMountDir props) = Inr node" "wf_node node"
    and built: "createFileShare cwd props scope fs = (scope', Inr plan)"
  shows "length (shareDirectories plan) = count_dirs node"
    and "distinct (map dir_name (shareDirectories plan))"
    and "length (shareFiles plan) = count_files node"
proof -
  let ?m = "localMountDir props"
  obtain files where
    g: "getAllFiles ?m (node_at cwd fs ?m) = Inr files"
    and dirs: "shareDirectories plan
                 = map (new_directory props (new_share props)) (getDirectories cwd files ?m)"
    and sf: "shareFiles plan =
        map (new_root_file props (new_share props) (shareDirectories plan))
            (rootFiles (categorizeFiles files ?m))
        @ map (new_subdir_file cwd props (new_share props) (shareDirectories plan))
            (subdirFiles (categorizeFiles files ?m))"
    using built by (rule createFileShare_InrD)
  obtain items where items: "node = Dir items"
    using wf_node_cases [OF node(2)] g unfolding node(1) by auto
  define FP where "FP = file_paths (Dir items)"
  have wf: "wf_node (Dir items)" using node(2) items by simp
  have vFP: "\<forall>p \<in> set FP. p \<noteq> [] \<and> (\<forall>s \<in> set p. valid_name s)"
    unfolding FP_def by (rule file_paths_all_valid [OF wf])
  have files: "files = map (\<lambda>p. abs_path (norm_segs False ?m @ p)) FP"
    using g getAllFiles_tree [OF abs wf] unfolding node(1) items FP_def by simp
  have n: "length files = count_files node"
    unfolding files items FP_def using length_file_paths [OF wf] by simp
  have d: "length (getDirectories cwd files ?m) = count_dirs node"
    unfolding files items count_dirs_def FP_def [symmetric]
    by (rule length_getDirectories_paths [OF abs vFP])
  have part: "length (rootFiles (categorizeFiles files ?m))
               + length (subdirFiles (categorizeFiles files ?m)) = length files"
    unfolding rootFiles_categorize subdirFiles_categorize by (rule sum_length_filter_compl)
  show "length (shareDirectories plan) = count_dirs node" unfolding dirs using d by simp
  show "distinct (map dir_name (shareDirectories plan))"
    unfolding dirs using getDirectories_distinct [of cwd files ?m]
    by (simp add: comp_def new_directory_sel)
  show "length (shareFiles plan) = count_files node" unfolding sf using part n by simp
qed

lemma createFileShare_succeeds:
  assumes g: "getAllFiles (localMountDir props) (node_at cwd fs (localMountDir props)) = Inr files"
    and dirs: "dirs = map (new_directory props (new_share props))
                          (getDirectories cwd files (localMountDir props))"
    and out: "out = map (new_root_file props (new_share props) dirs)
                        (rootFiles (categorizeFiles files (localMountDir props)))
                    @ map (new_subdir_file cwd props (new_share props) dirs)
                        (subdirFiles (categorizeFiles files (localMountDir props)))"
    and new: "distinct (map construct_name
                 (scope @ Share (new_share props) # map ShareDirectory dirs @ map ShareFile out))"
  shows "createFileShare cwd props scope fs
           = (scope @ Share (new_share props) # map ShareDirectory dirs @ map ShareFile out,
              Inr \<lparr>share = new_share props, shareDirectories = dirs, shareFiles = out\<rparr>)"
proof -
  let ?sh = "Share (new_share props)"
  have "construct_name ?sh \<notin> construct_name ` set scope" using new by auto
  then have a: "add_child scope ?sh = Inr (scope @ [?sh])" by (rule add_child_fresh)
  have "distinct (map construct_name ((scope @ [?sh]) @ (map ShareDirectory dirs @ map ShareFile out)))"
    using new by simp
  then have b: "add_children (scope @ [?sh]) (map ShareDirectory dirs @ map ShareFile out)
                  = ((scope @ [?sh]) @ (map ShareDirectory dirs @ map ShareFile out), None)"
    by (rule add_children_distinct)
  show ?thesis
    using a b g unfolding out dirs
    by (simp add: createFileShare_def Let_def)
qed

text \<open>
  \<^bold>\<open>C1\<close>. The mount directory with the files \<^verbatim>\<open>x\<close> and \<^verbatim>\<open>root/x\<close> is
  absolute, its tree is well formed, with two regular files and one directory other than
  the root that holds a file, so its mirror has one directory resource and two file
  resources. Both files get the id \<^verbatim>\<open>file_nginx_root_x\<close> (lines 183 and
  194), so the second \<^verbatim>\<open>new StorageShareFile\<close> throws and no plan is built. The same
  happens with the directories \<^verbatim>\<open>a/b\<close> and \<^verbatim>\<open>a_b\<close>, which both get the id
  \<^verbatim>\<open>dir_nginx_a_b\<close> (line 172).
\<close>

theorem C1_duplicate_name_for_colliding_files:
  "isAbsolute (localMountDir nginx_props)
   \<and> node_at ''/repo'' (repo_fs colliding_tree) (localMountDir nginx_props) = Inr colliding_tree
   \<and> wf_node colliding_tree
   \<and> count_files colliding_tree = 2
   \<and> count_dirs colliding_tree = 1
   \<and> snd (createFileShare ''/repo'' nginx_props scope0 (repo_fs colliding_tree))
       = Inl (DuplicateName ''file_nginx_root_x'')
   \<and> snd (createFileShare ''/repo'' nginx_props scope0
             (repo_fs (Dir [(''a'', Dir [(''b'', Dir [(''f'', File)])]), (''a_b'', Dir [(''g'', File)])])))
       = Inl (DuplicateName ''dir_nginx_a_b'')"
  by code_simp

lemma nested_dir_in_directory_set:
  assumes abs: "isAbsolute m" and norm: "resolve cwd m = m"
    and vFP: "\<forall>p \<in> set FP. p \<noteq> [] \<and> (\<forall>s \<in> set p. valid_name s)"
    and files: "files = map (\<lambda>p. abs_path (norm_segs False m @ p)) FP"
    and f: "f \<in> set files" "dirname f \<noteq> m"
  shows "dirname (relative cwd m f) \<in> set (getDirectories cwd files m)"
proof -
  let ?R = "norm_segs False m"
  obtain p where p: "p \<in> set FP" and fp: "f = abs_path (?R @ p)"
    using f(1) unfolding files set_map by blast
  have v: "p \<noteq> []" "\<forall>s \<in> set p. valid_name s" using vFP p by blast+
  have m: "m = abs_path ?R" using resolve_abs [OF abs, of cwd] norm by simp
  have len: "length p \<noteq> 1"
  proof
    assume "length p = 1"
    then obtain n where n: "p = [n]" by (cases p) auto
    have "dirname (abs_path (?R @ [n])) = abs_path ?R"
      using v(2) n by (intro dirname_abs_path_snoc norm_segs_valid) simp
    then show False using f(2) m fp n by metis
  qed
  then have b: "butlast p \<noteq> []" using v(1) by (cases p) auto
  have "dirname (relative cwd m (abs_path (?R @ p)))
          = (if length p = 1 then ''.'' else join_slash (butlast p))"
    by (rule reldir_of_file [OF abs v])
  then have d: "dirname (relative cwd m f) = join_slash (butlast p)"
    using len fp by metis
  have "butlast p \<in> set (filter (\<lambda>d. d \<noteq> []) (map butlast FP))"
    using p b unfolding set_filter set_map by blast
  then have "join_slash (butlast p) \<in> set (getDirectories cwd files m)"
    unfolding files getDirectories_paths [OF abs vFP] by (rule imageI)
  then show ?thesis unfolding d .
qed

text \<open>
  \<^bold>\<open>C3\<close>. The mount directory is an absolute path in the form \<^verbatim>\<open>path.resolve\<close>
  and \<^verbatim>\<open>path.join\<close> return (no trailing separator, no empty, \<^verbatim>\<open>.\<close> or
  \<^verbatim>\<open>..\<close> segment), as at every call of \<^verbatim>\<open>createFileShare\<close>, and the tree found
  there is well formed. Then in every plan that is built, every file resource whose
  \<^verbatim>\<open>path\<close> is present names a directory resource of the same plan; and every
  enumerated file with \<^verbatim>\<open>dirname(f) !== mountDir\<close> has
  \<^verbatim>\<open>dirname(relative(mountDir, f))\<close> in the directory set.
\<close>

theorem C3_nested_files_reference_plan_directories:
  assumes "isAbsolute (localMountDir props)"
    and "resolve cwd (localMountDir props) = localMountDir props"
    and "node_at cwd fs (localMountDir props) = Inr node"
    and "wf_node node"
    and "createFileShare cwd props scope fs = (scope', Inr plan)"
  shows "(\<forall>r \<in> set (shareFiles plan). \<forall>d. file_path r = Some d \<longrightarrow>
            d \<in> set (map dir_name (shareDirectories plan)))
         \<and> (\<exists>files.
               getAllFiles (localMountDir props) (node_at cwd fs (localMountDir props)) = Inr files
               \<and> (\<forall>f \<in> set files. dirname f \<noteq> localMountDir props \<longrightarrow>
                     dirname (relative cwd (localMountDir props) f)
                       \<in> set (getDirectories cwd files (localMountDir props))))"
proof -
  let ?m = "localMountDir props"
  obtain files where
    g: "getAllFiles ?m (node_at cwd fs ?m) = Inr files"
    and dirs: "shareDirectories plan
                 = map (new_directory props (new_share props)) (getDirectories cwd files ?m)"
    and sf: "shareFiles plan =
        map (new_root_file props (new_share props) (shareDirectories plan))
            (rootFiles (categorizeFiles files ?m))
        @ map (new_subdir_file cwd props (new_share props) (shareDirectories plan))
            (subdirFiles (categorizeFiles files ?m))"
    using assms(5) by (rule createFileShare_InrD)
  obtain items where items: "node = Dir items"
    using wf_node_cases [OF assms(4)] g unfolding assms(3) by auto
  define FP where "FP = file_paths (Dir items)"
  have wf: "wf_node (Dir items)" using assms(4) items by simp
  have vFP: "\<forall>p \<in> set FP. p \<noteq> [] \<and> (\<forall>s \<in> set p. valid_name s)"
    unfolding FP_def by (rule file_paths_all_valid [OF wf])
  have files: "files = map (\<lambda>p. abs_path (norm_segs False ?m @ p)) FP"
    using g getAllFiles_tree [OF assms(1) wf] unfolding assms(3) items FP_def by simp
  have nested: "dirname (relative cwd ?m f) \<in> set (getDirectories cwd files ?m)"
    if "f \<in> set files" "dirname f \<noteq> ?m" for f
    by (rule nested_dir_in_directory_set [OF assms(1,2) vFP files that])
  have names: "map dir_name (shareDirectories plan) = getDirectories cwd files ?m"
    unfolding dirs by (simp add: comp_def new_directory_sel)
  have refs: "d \<in> set (map dir_name (shareDirectories plan))"
    if r: "r \<in> set (shareFiles plan)" and d: "file_path r = Some d" for r d
  proof -
    have "r \<in> new_root_file props (new_share props) (shareDirectories plan)
                 ` set (rootFiles (categorizeFiles files ?m))
          \<or> r \<in> new_subdir_file cwd props (new_share props) (shareDirectories plan)
                   ` set (subdirFiles (categorizeFiles files ?m))"
      using r unfolding sf by auto
    then obtain f where f: "f \<in> set (subdirFiles (categorizeFiles files ?m))"
      and rf: "r = new_subdir_file cwd props (new_share props) (shareDirectories plan) f"
      using d by (auto simp: new_root_file_sel)
    have "f \<in> set files" "dirname f \<noteq> ?m" using f unfolding subdirFiles_categorize by auto
    then have "dirname (relative cwd ?m f) \<in> set (getDirectories cwd files ?m)" by (rule nested)
    moreover have "d = dirname (relative cwd ?m f)" using d rf by (simp add: new_subdir_file_path)
    ultimately show ?thesis unfolding names by simp
  qed
  show ?thesis using g nested refs by blast
qed

theorem C3_witness:
  "isAbsolute (localMountDir nginx_props)
   \<and> resolve ''/repo'' (localMountDir nginx_props) = localMountDir nginx_props
   \<and> node_at ''/repo'' (repo_fs nginx_tree) (localMountDir nginx_props) = Inr nginx_tree
   \<and> wf_node nginx_tree
   \<and> createFileShare ''/repo'' nginx_props scope0 (repo_fs nginx_tree) = (nginx_scope, Inr nginx_plan)
   \<and> map file_path (shareFiles nginx_plan) = [None, Some ''conf.d'']
   \<and> ''conf.d'' \<in> set (map dir_name (shareDirectories nginx_plan))"
proof -
  have a: "isAbsolute (localMountDir nginx_props)" by code_simp
  have n: "resolve ''/repo'' (localMountDir nginx_props) = localMountDir nginx_props" by code_simp
  have w: "wf_node nginx_tree" by code_simp
  have fp: "map file_path (shareFiles nginx_plan) = [None, Some ''conf.d'']" by code_simp
  have l: "\<forall>r \<in> set (shareFiles nginx_plan). \<forall>d. file_path r = Some d \<longrightarrow>
                 d \<in> set (map dir_name (shareDirectories nginx_plan))"
    using C3_nested_files_reference_plan_directories [OF a n nginx_node_at w nginx_createFileShare]
    by blast
  have "\<exists>r \<in> set (shareFiles nginx_plan). file_path r = Some ''conf.d''"
    by (simp add: nginx_plan_def)
  then have "''conf.d'' \<in> set (map dir_name (shareDirectories nginx_plan))"
    using l by blast
  then show ?thesis using a n w fp nginx_node_at nginx_createFileShare by blast
qed

section \<open>The shape of relative paths\<close>

lemma norm_step_segs_ok:
  "\<forall>s \<in> set acc. s \<noteq> [] \<and> CHR ''/'' \<notin> set s \<Longrightarrow> CHR ''/'' \<notin> set seg \<Longrightarrow>
   \<forall>s \<in> set (norm_step b acc seg). s \<noteq> [] \<and> CHR ''/'' \<notin> set s"
  by (auto simp: norm_step_def dest: in_set_butlastD)

lemma norm_fold_segs_ok:
  "\<forall>s \<in> set acc. s \<noteq> [] \<and> CHR ''/'' \<notin> set s \<Longrightarrow> \<forall>s \<in> set segs. CHR ''/'' \<notin> set s \<Longrightarrow>
   \<forall>s \<in> set (foldl (norm_step b) acc segs). s \<noteq> [] \<and> CHR ''/'' \<notin> set s"
proof (induction segs arbitrary: acc)
  case Nil
  then show ?case by simp
next
  case (Cons a segs)
  have 1: "\<forall>s \<in> set (norm_step b acc a). s \<noteq> [] \<and> CHR ''/'' \<notin> set s"
    by (rule norm_step_segs_ok) (use Cons.prems in auto)
  have 2: "\<forall>s \<in> set segs. CHR ''/'' \<notin> set s" using Cons.prems(2) by simp
  show ?case unfolding foldl_Cons by (rule Cons.IH [OF 1 2])
qed

lemma norm_segs_ok: "\<forall>s \<in> set (norm_segs b p). s \<noteq> [] \<and> CHR ''/'' \<notin> set s"
  unfolding norm_segs_def
  by (rule norm_fold_segs_ok) (auto dest: split_path_noslash)

text \<open>A string without two adjacent separators.\<close>

lemma split_path_double_slash:
  "[] \<in> set (tl (split_path (a @ ''//'' @ b)))"
proof -
  have "split_path (a @ CHR ''/'' # (CHR ''/'' # b)) = split_path a @ ([] # split_path b)"
    unfolding split_path_append by simp
  moreover have "split_path a \<noteq> []" by (rule split_path_ne)
  ultimately show ?thesis by (cases "split_path a") auto
qed

lemma join_slash_no_double_slash:
  assumes "\<forall>s \<in> set segs. s \<noteq> [] \<and> CHR ''/'' \<notin> set s"
  shows "join_slash segs \<noteq> a @ ''//'' @ b"
proof
  assume e: "join_slash segs = a @ ''//'' @ b"
  then have ne: "segs \<noteq> []" by (cases segs) auto
  have "split_path (join_slash segs) = segs"
    using assms by (intro split_join [OF ne]) blast
  then have "[] \<in> set (tl segs)" using split_path_double_slash [of a b] unfolding e by metis
  then have "[] \<in> set segs" by (metis list.set_sel(2) list.sel(2) empty_iff empty_set)
  then show False using assms by blast
qed

lemma join_slash_hd_ok:
  assumes "segs \<noteq> []" "\<forall>s \<in> set segs. s \<noteq> [] \<and> CHR ''/'' \<notin> set s"
  shows "join_slash segs \<noteq> [] \<and> hd (join_slash segs) \<noteq> CHR ''/''"
proof -
  obtain s ss where p: "segs = s # ss" using assms(1) by (cases segs) auto
  have s: "s \<noteq> []" "CHR ''/'' \<notin> set s" using assms(2) p by auto
  then have "hd s \<noteq> CHR ''/''" by (metis hd_in_set)
  moreover have "hd (join_slash segs) = hd s \<and> join_slash segs \<noteq> []" using s(1) p by (cases ss) auto
  ultimately show ?thesis by simp
qed

lemma abs_no_double_slash:
  assumes "\<forall>s \<in> set segs. s \<noteq> [] \<and> CHR ''/'' \<notin> set s"
  shows "CHR ''/'' # join_slash segs \<noteq> a @ ''//'' @ b"
proof
  assume e: "CHR ''/'' # join_slash segs = a @ ''//'' @ b"
  show False
  proof (cases a)
    case Nil
    then have j: "join_slash segs = CHR ''/'' # b" using e by simp
    then have "segs \<noteq> []" by (cases segs) auto
    then show False using join_slash_hd_ok [OF _ assms] j by simp
  next
    case (Cons c a')
    then have "join_slash segs = a' @ ''//'' @ b" using e by simp
    then show False using join_slash_no_double_slash [OF assms] by blast
  qed
qed

lemma resolve_cases:
  "(\<exists>segs. (\<forall>s \<in> set segs. s \<noteq> [] \<and> CHR ''/'' \<notin> set s) \<and> resolve cwd p = CHR ''/'' # join_slash segs)
   \<or> (\<not> isAbsolute p \<and> \<not> isAbsolute cwd
       \<and> (\<exists>segs. (\<forall>s \<in> set segs. s \<noteq> [] \<and> CHR ''/'' \<notin> set s) \<and> segs \<noteq> []
                  \<and> resolve cwd p = join_slash segs))
   \<or> (\<not> isAbsolute p \<and> \<not> isAbsolute cwd \<and> resolve cwd p = ''.'')"
proof (cases "isAbsolute p \<or> isAbsolute cwd")
  case True
  then have "\<exists>r. resolve cwd p = CHR ''/'' # join_slash (norm_segs False r)"
    by (auto simp: resolve_def Let_def normalizeString_def)
  then show ?thesis using norm_segs_ok by blast
next
  case False
  then have "\<exists>r. resolve cwd p = (if join_slash (norm_segs True r) \<noteq> [] then join_slash (norm_segs True r) else ''.'')"
    by (auto simp: resolve_def Let_def normalizeString_def)
  then obtain r where r: "resolve cwd p = (if join_slash (norm_segs True r) \<noteq> [] then join_slash (norm_segs True r) else ''.'')"
    by blast
  show ?thesis
  proof (cases "join_slash (norm_segs True r) = []")
    case True
    then show ?thesis using r False by simp
  next
    case ne: False
    then have "norm_segs True r \<noteq> []" by auto
    then show ?thesis using r ne False norm_segs_ok [of True r] by auto
  qed
qed

lemma resolve_ne: "resolve cwd p \<noteq> []"
  using resolve_cases [of cwd p] by (auto dest: join_slash_hd_ok)

lemma resolve_no_double_slash: "resolve cwd p \<noteq> a @ ''//'' @ b"
proof -
  have "''.'' \<noteq> a @ ''//'' @ b" by (cases a) auto
  then show ?thesis
    using resolve_cases [of cwd p] abs_no_double_slash [of _ a b] join_slash_no_double_slash [of _ a b]
    by metis
qed

lemma resolve_abs_second:
  assumes "isAbsolute p \<or> isAbsolute cwd"
  shows "drop 1 (resolve cwd p) = [] \<or> hd (drop 1 (resolve cwd p)) \<noteq> CHR ''/''"
proof -
  obtain segs where s: "\<forall>s \<in> set segs. s \<noteq> [] \<and> CHR ''/'' \<notin> set s"
    and r: "resolve cwd p = CHR ''/'' # join_slash segs"
    using resolve_cases [of cwd p] assms by blast
  show ?thesis
  proof (cases "segs = []")
    case True
    then show ?thesis using r by simp
  next
    case False
    then show ?thesis using join_slash_hd_ok [OF False s] r by simp
  qed
qed

lemma common_prefix_len_le: "common_prefix_len f t \<le> min (length f) (length t)"
  by (induction f t rule: common_prefix_len.induct) auto

lemma last_sep_upper: "last_sep s < int (length s)"
proof -
  have "length (dropWhile (\<lambda>c. c \<noteq> CHR ''/'') (rev s)) \<le> length (rev s)"
    by (rule length_dropWhile_le)
  then show ?thesis by (simp add: last_sep_def Let_def)
qed

lemma last_sep_lower: "- 1 \<le> last_sep s"
  by (simp add: last_sep_def Let_def)

lemma join_slash_replicate_Suc: "\<exists>rest. join_slash (replicate (Suc n) x) = x @ rest"
  by (cases n) auto

lemma up_segments_dotdot:
  assumes "start \<le> length from"
  shows "\<exists>rest. up_segments from start = ''..'' @ rest"
  using assms join_slash_replicate_Suc [of _ "''..''"]
  by (simp only: up_segments_def Let_def if_True)

lemma relative_resolved_cases:
  assumes ne: "from \<noteq> []"
  shows "(\<exists>i. i + 1 < length to \<and> to ! (i + 1) = CHR ''/'' \<and> relative_resolved from to = drop (i + 2) to)
         \<or> relative_resolved from to = drop 1 to
         \<or> (\<exists>rest. relative_resolved from to = ''..'' @ rest)"
proof -
  define f where "f = drop 1 from"
  define t where "t = drop 1 to"
  define fromLen where "fromLen = length from - 1"
  define toLen where "toLen = length to - 1"
  define len where "len = min fromLen toLen"
  define i where "i = common_prefix_len f t"
  define sep where "sep = last_sep (take i f)"
  define lcs where "lcs = (if i = len \<and> \<not> toLen > len \<and> fromLen > len then
                    (if f ! i = CHR ''/'' then int i
                     else if i = 0 then 0 else sep)
                  else sep)"
  have rr: "relative_resolved from to =
      (if i = len \<and> toLen > len \<and> t ! i = CHR ''/'' then drop (i + 1) t
       else if i = len \<and> toLen > len \<and> i = 0 then drop i t
       else up_segments from (nat (1 + lcs + 1)) @ drop (nat (1 + lcs)) to)"
    unfolding relative_resolved_def Let_def lcs_def sep_def i_def len_def toLen_def fromLen_def
      t_def f_def
    by (rule refl)
  have lf: "length f = fromLen" "length t = toLen"
    by (simp_all add: f_def t_def fromLen_def toLen_def)
  have i_le: "i \<le> len"
    unfolding i_def len_def lf [symmetric] by (rule common_prefix_len_le)
  have len_le: "len \<le> fromLen" by (simp add: len_def)
  have from_len: "length from = fromLen + 1" using ne by (cases "from") (auto simp: fromLen_def)
  consider (A) "i = len \<and> toLen > len \<and> t ! i = CHR ''/''"
    | (B) "\<not> (i = len \<and> toLen > len \<and> t ! i = CHR ''/'')" "i = len \<and> toLen > len \<and> i = 0"
    | (C) "\<not> (i = len \<and> toLen > len \<and> t ! i = CHR ''/'')" "\<not> (i = len \<and> toLen > len \<and> i = 0)"
    by blast
  then show ?thesis
  proof cases
    case A
    have "relative_resolved from to = drop (i + 1) t"
      unfolding rr by (rule if_P [OF A])
    then have 1: "relative_resolved from to = drop (i + 2) to"
      by (simp add: t_def)
    have 2: "i + 1 < length to" using A unfolding toLen_def by auto
    have 3: "to ! (i + 1) = CHR ''/''" using A 2 unfolding t_def by auto
    show ?thesis using 1 2 3 by blast
  next
    case B
    have "relative_resolved from to = drop i t"
      unfolding rr by (simp only: if_not_P [OF B(1)] if_P [OF B(2)])
    moreover have "i = 0" using B(2) by blast
    ultimately have "relative_resolved from to = drop 1 to"
      by (simp add: t_def)
    then show ?thesis by blast
  next
    case C
    have 1: "relative_resolved from to
               = up_segments from (nat (1 + lcs + 1)) @ drop (nat (1 + lcs)) to"
      unfolding rr by (simp only: if_not_P [OF C(1)] if_not_P [OF C(2)])
    have sep_le: "sep < int i"
    proof -
      have "sep < int (length (take i f))" unfolding sep_def by (rule last_sep_upper)
      then show ?thesis by simp
    qed
    have "lcs + 1 \<le> int fromLen"
    proof (cases "i = len \<and> \<not> toLen > len \<and> fromLen > len")
      case True
      then show ?thesis using sep_le by (auto simp: lcs_def)
    next
      case False
      then show ?thesis using sep_le i_le len_le by (auto simp: lcs_def)
    qed
    then have "nat (1 + lcs + 1) \<le> length from" unfolding from_len by simp
    then obtain rest where "up_segments from (nat (1 + lcs + 1)) = ''..'' @ rest"
      using up_segments_dotdot by blast
    then show ?thesis unfolding 1 by simp
  qed
qed

lemma relative_cases:
  "relative cwd a b = []
   \<or> (\<exists>i. i + 1 < length (resolve cwd b) \<and> resolve cwd b ! (i + 1) = CHR ''/''
           \<and> relative cwd a b = drop (i + 2) (resolve cwd b))
   \<or> relative cwd a b = drop 1 (resolve cwd b)
   \<or> (\<exists>rest. relative cwd a b = ''..'' @ rest)"
proof (cases "a = b \<or> resolve cwd a = resolve cwd b")
  case True
  then show ?thesis by (auto simp: relative_def)
next
  case False
  then have "relative cwd a b = relative_resolved (resolve cwd a) (resolve cwd b)"
    by (simp add: relative_def Let_def)
  then show ?thesis
    using relative_resolved_cases [of "resolve cwd a" "resolve cwd b", OF resolve_ne]
    by simp
qed

lemma dropWhile_is_suffix: "\<exists>pre. xs = pre @ dropWhile P xs"
  by (metis takeWhile_dropWhile_id)

lemma dirname_tail:
  fixes x :: string
  defines "r \<equiv> dropWhile (\<lambda>c. c \<noteq> CHR ''/'') (dropWhile (\<lambda>c. c = CHR ''/'') (rev (tl x)))"
  assumes "r \<noteq> []"
  shows "\<exists>rest. x = take (length r) x @ CHR ''/'' # rest" and "0 < length r" and "length r < length x"
proof -
  obtain r' where r': "r = CHR ''/'' # r'"
  proof -
    have "\<not> (hd r \<noteq> CHR ''/'')"
      using assms(2) unfolding r_def by (rule hd_dropWhile)
    then show ?thesis using assms(2) that by (cases r) auto
  qed
  define d where "d = dropWhile (\<lambda>c. c = CHR ''/'') (rev (tl x))"
  have r_d: "r = dropWhile (\<lambda>c. c \<noteq> CHR ''/'') d" unfolding r_def d_def by (rule refl)
  obtain p2 where p2: "rev (tl x) = p2 @ d"
    unfolding d_def using dropWhile_is_suffix by blast
  obtain p1 where p1: "d = p1 @ r"
    unfolding r_d using dropWhile_is_suffix by blast
  define q where "q = rev (p2 @ p1)"
  have "rev (tl x) = (p2 @ p1) @ CHR ''/'' # r'" unfolding p2 p1 r' by simp
  then have "rev (rev (tl x)) = rev ((p2 @ p1) @ CHR ''/'' # r')" by (rule arg_cong)
  then have tl: "tl x = rev r' @ CHR ''/'' # q" unfolding q_def by simp
  obtain c cs where ccs: "x = c # cs"
  proof (cases x)
    case Nil
    then show ?thesis using tl by simp
  next
    case (Cons c cs)
    then show ?thesis using that by blast
  qed
  have cs: "cs = rev r' @ CHR ''/'' # q" using tl unfolding ccs by simp
  have len: "length r = Suc (length r')" unfolding r' by simp
  have tk: "take (length r) x = c # rev r'" unfolding ccs cs len by simp
  show "\<exists>rest. x = take (length r) x @ CHR ''/'' # rest"
    unfolding tk unfolding ccs cs by simp
  show "0 < length r" unfolding len by simp
  show "length r < length x" unfolding len ccs cs by simp
qed

lemma dirname_dot_slash:
  assumes "dirname x = ''./''"
  shows "\<exists>rest. x = ''.//'' @ rest"
proof -
  define r where "r = dropWhile (\<lambda>c. c \<noteq> CHR ''/'') (dropWhile (\<lambda>c. c = CHR ''/'') (rev (tl x)))"
  have ne: "x \<noteq> []" using assms by (auto simp: dirname_def)
  have d: "dirname x = (if r = [] then (if hd x = CHR ''/'' then ''/'' else ''.'')
            else if hd x = CHR ''/'' \<and> length r = 1 then ''//''
            else take (length r) x)"
    by (rule dirname_eq [OF ne r_def [symmetric]])
  have rne: "r \<noteq> []" using d assms by (auto split: if_splits)
  have t: "take (length r) x = ''./''" using d assms rne by (auto split: if_splits)
  obtain rest where rest: "x = take (length r) x @ CHR ''/'' # rest"
    using dirname_tail(1) [of x] rne unfolding r_def by blast
  show ?thesis using rest unfolding t by simp
qed

lemma relative_not_dot_slash: "dirname (relative cwd a b) \<noteq> ''./''"
proof
  assume "dirname (relative cwd a b) = ''./''"
  then obtain rest where x: "relative cwd a b = ''.//'' @ rest"
    using dirname_dot_slash by blast
  consider (empty) "relative cwd a b = []"
    | (suffix) k where "relative cwd a b = drop k (resolve cwd b)"
    | (up) rest' where "relative cwd a b = ''..'' @ rest'"
    using relative_cases [of cwd a b] by blast
  then show False
  proof cases
    case empty
    then show ?thesis using x by simp
  next
    case (suffix k)
    have "resolve cwd b = take k (resolve cwd b) @ drop k (resolve cwd b)" by simp
    then have "resolve cwd b = (take k (resolve cwd b) @ ''.'') @ ''//'' @ rest"
      using suffix x by (metis append.assoc append_Cons append_Nil)
    then show ?thesis using resolve_no_double_slash by blast
  next
    case (up rest')
    then show ?thesis using x by simp
  qed
qed

lemma relative_no_leading_slash:
  assumes "isAbsolute b \<or> isAbsolute cwd"
  shows "relative cwd a b = [] \<or> hd (relative cwd a b) \<noteq> CHR ''/''"
proof -
  let ?to = "resolve cwd b"
  consider (empty) "relative cwd a b = []"
    | (early) i where "i + 1 < length ?to" "?to ! (i + 1) = CHR ''/''"
        "relative cwd a b = drop (i + 2) ?to"
    | (root) "relative cwd a b = drop 1 ?to"
    | (up) rest where "relative cwd a b = ''..'' @ rest"
    using relative_cases [of cwd a b] by blast
  then show ?thesis
  proof cases
    case empty
    then show ?thesis by simp
  next
    case (early i)
    show ?thesis
    proof (cases "i + 2 < length ?to")
      case False
      then show ?thesis using early(3) by simp
    next
      case True
      have "?to ! (i + 2) \<noteq> CHR ''/''"
      proof
        assume s: "?to ! (i + 2) = CHR ''/''"
        have "?to = take (i + 1) ?to @ ?to ! (i + 1) # drop (Suc (i + 1)) ?to"
          using early(1) by (metis id_take_nth_drop)
        moreover have "drop (Suc (i + 1)) ?to = ?to ! (i + 2) # drop (Suc (i + 2)) ?to"
          using True by (metis Cons_nth_drop_Suc Suc_eq_plus1 add_Suc_right numeral_2_eq_2 add.commute
              add_2_eq_Suc')
        ultimately have "?to = take (i + 1) ?to @ ''//'' @ drop (Suc (i + 2)) ?to"
          using early(2) s by simp
        then show False using resolve_no_double_slash by blast
      qed
      then show ?thesis using early(3) True by (simp add: hd_drop_conv_nth)
    qed
  next
    case root
    then show ?thesis using resolve_abs_second [OF assms] by simp
  next
    case (up rest)
    then show ?thesis by simp
  qed
qed

lemma dirname_relative_path:
  assumes "x = [] \<or> hd x \<noteq> CHR ''/''"
  shows "\<not> isAbsolute (dirname x)"
proof (cases "x = []")
  case True
  then show ?thesis by (simp add: dirname_def isAbsolute_def)
next
  case False
  define r where "r = dropWhile (\<lambda>c. c \<noteq> CHR ''/'') (dropWhile (\<lambda>c. c = CHR ''/'') (rev (tl x)))"
  have h: "hd x \<noteq> CHR ''/''" using assms False by blast
  have d: "dirname x = (if r = [] then (if hd x = CHR ''/'' then ''/'' else ''.'')
            else if hd x = CHR ''/'' \<and> length r = 1 then ''//''
            else take (length r) x)"
    by (rule dirname_eq [OF False r_def [symmetric]])
  show ?thesis
  proof (cases "r = []")
    case True
    then show ?thesis using d h by (simp add: isAbsolute_def)
  next
    case rne: False
    have "0 < length r" using rne by simp
    then have "hd (take (length r) x) = hd x" by (metis hd_take)
    then show ?thesis using d h rne by (simp add: isAbsolute_def)
  qed
qed

lemma relative_dir_not_absolute:
  assumes "isAbsolute b \<or> isAbsolute cwd"
  shows "\<not> isAbsolute (dirname (relative cwd a b))"
  by (rule dirname_relative_path [OF relative_no_leading_slash [OF assms]])

section \<open>Classification of arbitrary paths, and two redundant tests\<close>

text \<open>
  \<^bold>\<open>C4\<close>, for the classification as it is: it has no failure. \<^verbatim>\<open>categorizeFiles\<close> puts
  every input path, under the mount directory or not, into exactly one of the two lists,
  by the test \<^verbatim>\<open>path.dirname(file) === mountDir\<close> alone. A path whose
  \<^verbatim>\<open>dirname\<close> differs from the mount directory, as that of a file outside it, is
  classified as nested.
\<close>

theorem C4_classification_is_total:
  "(f \<in> set (subdirFiles (categorizeFiles files mountDir))
      \<longleftrightarrow> f \<in> set files \<and> dirname f \<noteq> mountDir)
   \<and> set (rootFiles (categorizeFiles files mountDir))
       \<union> set (subdirFiles (categorizeFiles files mountDir)) = set files
   \<and> set (rootFiles (categorizeFiles files mountDir))
       \<inter> set (subdirFiles (categorizeFiles files mountDir)) = {}"
  unfolding rootFiles_categorize subdirFiles_categorize by auto

theorem C4_witness:
  "dirname ''/etc/passwd'' \<noteq> ''/repo/mountfiles/nginx''
   \<and> ''/etc/passwd'' \<in> set (subdirFiles (categorizeFiles
          [''/repo/mountfiles/nginx/nginx.conf'', ''/etc/passwd''] ''/repo/mountfiles/nginx''))"
proof -
  have d: "dirname ''/etc/passwd'' \<noteq> ''/repo/mountfiles/nginx''" by code_simp
  show ?thesis
    using d C4_classification_is_total [of "''/etc/passwd''"
            "[''/repo/mountfiles/nginx/nginx.conf'', ''/etc/passwd'']" "''/repo/mountfiles/nginx''"]
    by simp
qed

text \<open>
  No error is raised for a file outside the mount directory: it is classified as nested,
  its relative directory enters the directory set, and the file resource made for it gets
  that directory as path.
\<close>

theorem C4_counterexample:
  "categorizeFiles [''/etc/passwd''] ''/repo/mountfiles/nginx''
     = \<lparr>rootFiles = [], subdirFiles = [''/etc/passwd'']\<rparr>
   \<and> getDirectories ''/repo'' [''/etc/passwd''] ''/repo/mountfiles/nginx'' = [''../../../etc'']
   \<and> file_path (new_subdir_file ''/repo'' nginx_props (new_share nginx_props) [] ''/etc/passwd'')
     = Some ''../../../etc''"
  by code_simp

text \<open>
  \<^bold>\<open>C9\<close>. The conditional expression of line 198 changes nothing: the file resource of
  a nested file is the one with \<^verbatim>\<open>path: path.dirname(relativePath)\<close>; the branch
  that writes \<^verbatim>\<open>./\<close> is never taken, since \<^verbatim>\<open>path.dirname\<close> of a result of
  \<^verbatim>\<open>path.relative\<close> is never \<^verbatim>\<open>./\<close>; and in every plan a file resource whose
  source is not directly under the mount directory has the path
  \<^verbatim>\<open>dirname(relative(mountDir, source))\<close>.
\<close>

theorem C9_nested_path_is_relative_dirname:
  "new_subdir_file cwd props sh shareDirs file = new_subdir_file_direct cwd props sh shareDirs file
   \<and> dirname (relative cwd a b) \<noteq> ''./''
   \<and> (createFileShare cwd props scope fs = (scope', Inr plan) \<longrightarrow>
        (\<forall>r \<in> set (shareFiles plan).
           dirname (file_source r) \<noteq> localMountDir props \<longrightarrow>
             file_path r = Some (dirname (relative cwd (localMountDir props) (file_source r)))))"
proof -
  have 1: "new_subdir_file cwd props sh shareDirs file
             = new_subdir_file_direct cwd props sh shareDirs file"
    by (simp add: new_subdir_file_def new_subdir_file_direct_def Let_def)
  have 2: "dirname (relative cwd a b) \<noteq> ''./''" by (rule relative_not_dot_slash)
  have 3: "\<forall>r \<in> set (shareFiles plan).
           dirname (file_source r) \<noteq> localMountDir props \<longrightarrow>
             file_path r = Some (dirname (relative cwd (localMountDir props) (file_source r)))"
    if p: "createFileShare cwd props scope fs = (scope', Inr plan)"
  proof -
    obtain files where plan: "shareFiles plan =
        map (new_root_file props (new_share props) (shareDirectories plan))
            (rootFiles (categorizeFiles files (localMountDir props)))
        @ map (new_subdir_file cwd props (new_share props) (shareDirectories plan))
            (subdirFiles (categorizeFiles files (localMountDir props)))"
      using p by (rule createFileShare_InrD)
    show ?thesis
      unfolding plan
      by (auto simp: new_root_file_sel new_subdir_file_sel new_subdir_file_path rootFiles_categorize)
  qed
  show ?thesis using 1 2 3 by blast
qed

theorem C9_witness:
  "createFileShare ''/repo'' nginx_props scope0 (repo_fs nginx_tree) = (nginx_scope, Inr nginx_plan)
   \<and> map (\<lambda>r. (dirname (file_source r) \<noteq> localMountDir nginx_props, file_path r))
         (shareFiles nginx_plan) = [(False, None), (True, Some ''conf.d'')]
   \<and> dirname (relative ''/repo'' (localMountDir nginx_props)
                ''/repo/mountfiles/nginx/conf.d/default.conf'') = ''conf.d''"
proof -
  have e: "map (\<lambda>r. (dirname (file_source r) \<noteq> localMountDir nginx_props, file_path r))
         (shareFiles nginx_plan) = [(False, None), (True, Some ''conf.d'')]"
    by code_simp
  have s: "map file_source (shareFiles nginx_plan)
             = [''/repo/mountfiles/nginx/nginx.conf'', ''/repo/mountfiles/nginx/conf.d/default.conf'']"
    by code_simp
  obtain r0 r1 where rs: "shareFiles nginx_plan = [r0, r1]"
    by (simp add: nginx_plan_def)
  have r1: "r1 \<in> set (shareFiles nginx_plan)" "dirname (file_source r1) \<noteq> localMountDir nginx_props"
    "file_path r1 = Some ''conf.d''" "file_source r1 = ''/repo/mountfiles/nginx/conf.d/default.conf''"
    using e s unfolding rs by simp_all
  have "file_path r1 = Some (dirname (relative ''/repo'' (localMountDir nginx_props) (file_source r1)))"
    using C9_nested_path_is_relative_dirname [of "''/repo''" nginx_props _ _ _ _ _ scope0
            "repo_fs nginx_tree" nginx_scope nginx_plan]
      nginx_createFileShare r1(1,2) by blast
  then have "dirname (relative ''/repo'' (localMountDir nginx_props)
                ''/repo/mountfiles/nginx/conf.d/default.conf'') = ''conf.d''"
    unfolding r1(3,4) by simp
  then show ?thesis using e nginx_createFileShare by blast
qed

text \<open>
  \<^bold>\<open>C10\<close>. When the mount directory is an absolute path and the files are absolute
  paths (as every path under it is) or the working directory is absolute,
  \<^verbatim>\<open>dirname(relative(mountDir, file))\<close> is never an absolute path, so the test
  \<^verbatim>\<open>dir !== mountDir\<close> never rejects a directory: the extractor returns what it
  returns without that test.
\<close>

theorem C10_root_test_is_redundant:
  assumes "isAbsolute mountDir"
    and "isAbsolute cwd \<or> (\<forall>f \<in> set files. isAbsolute f)"
  shows "(\<forall>f \<in> set files. \<not> isAbsolute (dirname (relative cwd mountDir f))
                           \<and> dirname (relative cwd mountDir f) \<noteq> mountDir)
         \<and> getDirectories cwd files mountDir = getDirectories_no_root_test cwd files mountDir"
proof -
  have rel: "\<not> isAbsolute (dirname (relative cwd mountDir f))" if "f \<in> set files" for f
    using assms(2) that by (intro relative_dir_not_absolute) blast
  then have ne: "dirname (relative cwd mountDir f) \<noteq> mountDir" if "f \<in> set files" for f
    using assms(1) that by metis
  have "foldl (\<lambda>directories file.
                    let dir = dirname (relative cwd mountDir file)
                    in if dir \<noteq> [] \<and> dir \<noteq> mountDir \<and> dir \<noteq> ''.''
                       then set_add directories dir
                       else directories) [] files
        = foldl (\<lambda>directories file.
                    let dir = dirname (relative cwd mountDir file)
                    in if dir \<noteq> [] \<and> dir \<noteq> ''.''
                       then set_add directories dir
                       else directories) [] files"
    by (rule foldl_cong [OF refl refl]) (simp add: Let_def ne)
  then have "getDirectories cwd files mountDir = getDirectories_no_root_test cwd files mountDir"
    unfolding getDirectories_def getDirectories_no_root_test_def by (rule arg_cong)
  then show ?thesis using rel ne by blast
qed

theorem C10_witness:
  "isAbsolute ''/srv/m''
   \<and> list_all isAbsolute [''/srv/m/z/k'', ''/srv/m/top'', ''/srv/m/a/b/y'']
   \<and> getDirectories ''repo'' [''/srv/m/z/k'', ''/srv/m/top'', ''/srv/m/a/b/y''] ''/srv/m'' = [''a/b'', ''z'']
   \<and> getDirectories_no_root_test ''repo'' [''/srv/m/z/k'', ''/srv/m/top'', ''/srv/m/a/b/y''] ''/srv/m''
       = [''a/b'', ''z'']"
proof -
  have a: "isAbsolute ''/srv/m''" by code_simp
  have b: "list_all isAbsolute [''/srv/m/z/k'', ''/srv/m/top'', ''/srv/m/a/b/y'']" by code_simp
  then have b': "isAbsolute ''repo'' \<or> (\<forall>f \<in> set [''/srv/m/z/k'', ''/srv/m/top'', ''/srv/m/a/b/y'']. isAbsolute f)"
    unfolding list_all_iff by (rule disjI2)
  have e: "getDirectories ''repo'' [''/srv/m/z/k'', ''/srv/m/top'', ''/srv/m/a/b/y''] ''/srv/m'' = [''a/b'', ''z'']"
    by code_simp
  show ?thesis
    using C10_root_test_is_redundant [OF a b'] a b e by simp
qed

section \<open>Errors of the walk\<close>






end
